theory Spec2Isabelle
  imports Main "HOL-Library.Word" "HOL-Library.Multiset"
begin

section \<open>util/get\_identifier.h\<close>

text \<open>
  \<^verbatim>\<open>typeid(T).name()\<close> is the implementation's name of the type \<open>T\<close>, a string.
  \<^verbatim>\<open>demangle\<close> lives in \<^verbatim>\<open>nuclear_bits/util/demangle.h\<close>, which is not among the
  embedded sources, so it is a parameter of the model. A \<^verbatim>\<open>std::vector\<close> is a list;
  \<^verbatim>\<open>reserve\<close> changes its capacity only, \<^verbatim>\<open>push_back\<close> appends.
\<close>

type_synonym type_info = string

definition reserve :: "nat \<Rightarrow> 'a list \<Rightarrow> 'a list" where
  "reserve n v = v"

definition push_back :: "'a list \<Rightarrow> 'a \<Rightarrow> 'a list" where
  "push_back v x = v @ [x]"

definition get_identifier ::
  "(string \<Rightarrow> string) \<Rightarrow> type_info \<Rightarrow> type_info \<Rightarrow> string \<Rightarrow> string list" where
  "get_identifier demangle TFusion TFunc usr =
     (let out0 = reserve 3 [];
          out1 = push_back out0 usr;
          out2 = push_back out1 (demangle TFusion);
          out3 = push_back out2 (demangle TFunc)
      in out3)"

section \<open>dsl/fusion/BindFusion.h\<close>

text \<open>
  A DSL word \<open>W\<close> may have a static member \<^verbatim>\<open>bind\<close> of its own (\<^verbatim>\<open>has_bind<W>\<close>) and its
  \<^verbatim>\<open>operation::DSLProxy<W>\<close> may have one (\<^verbatim>\<open>has_bind<DSLProxy<W>>\<close>). A bind member
  takes the reactor, the identifier, the callback and then its own runtime arguments
  (\<^verbatim>\<open>TRelevant...\<close>, whose number is \<open>relevant\<close>); it returns a vector of handles and may
  change the reactor, which is passed by reference.

  The overloads of \<^verbatim>\<open>BindFusion::bind\<close> are selected by \<^verbatim>\<open>EnableIf\<close>; a call for which no
  overload is enabled, or whose arguments do not fit the parameters, does not compile.
  The model returns that as an error value.
\<close>

type_synonym ('r, 'f, 'a, 'h) bind_function =
  "'r \<Rightarrow> string \<Rightarrow> 'f \<Rightarrow> 'a list \<Rightarrow> 'h list \<times> 'r"

record ('r, 'f, 'a, 'h) bind_member =
  relevant :: nat
  invoke :: "('r, 'f, 'a, 'h) bind_function"

record ('r, 'f, 'a, 'h) dsl_word =
  own_bind :: "('r, 'f, 'a, 'h) bind_member option"
  proxy_bind :: "('r, 'f, 'a, 'h) bind_member option"

datatype compile_error = NoMatchingOverload | ArgumentMismatch

definition has_bind :: "('r, 'f, 'a, 'h) dsl_word \<Rightarrow> bool" where
  "has_bind W = (own_bind W \<noteq> None)"

definition has_bind_DSLProxy :: "('r, 'f, 'a, 'h) dsl_word \<Rightarrow> bool" where
  "has_bind_DSLProxy W = (proxy_bind W \<noteq> None)"

text \<open>\<^verbatim>\<open>Any<has_bind<W>, has_bind<operation::DSLProxy<W>>>\<close>\<close>

definition binds :: "('r, 'f, 'a, 'h) dsl_word \<Rightarrow> bool" where
  "binds W = (has_bind W \<or> has_bind_DSLProxy W)"

text \<open>\<^verbatim>\<open>If<has_bind<TFirst>, TFirst, operation::DSLProxy<TFirst>>::bind\<close>\<close>

definition bind_of :: "('r, 'f, 'a, 'h) dsl_word \<Rightarrow> ('r, 'f, 'a, 'h) bind_member option" where
  "bind_of W = (if has_bind W then own_bind W else proxy_bind W)"

fun BindFusion_bind ::
    "('r, 'f, 'a, 'h) dsl_word list \<Rightarrow> 'r \<Rightarrow> string \<Rightarrow> 'f \<Rightarrow> 'a list \<Rightarrow> compile_error + 'h list \<times> 'r"
  and BindFission_bind ::
    "('r, 'f, 'a, 'h) bind_member \<Rightarrow> ('r, 'f, 'a, 'h) dsl_word list \<Rightarrow>
       'r \<Rightarrow> string \<Rightarrow> 'f \<Rightarrow> 'a list \<Rightarrow> compile_error + 'h list \<times> 'r" where
  "BindFusion_bind [] reactor identifier callback args = Inl NoMatchingOverload"
| "BindFusion_bind (TFirst # TWords) reactor identifier callback args =
     (if binds TFirst \<and> list_ex binds TWords then
        (case bind_of TFirst of
           None \<Rightarrow> Inl NoMatchingOverload
         | Some BindFunc \<Rightarrow> BindFission_bind BindFunc TWords reactor identifier callback args)
      else if binds TFirst \<and> \<not> list_ex binds TWords then
        (case bind_of TFirst of
           None \<Rightarrow> Inl NoMatchingOverload
         | Some BindFunc \<Rightarrow>
             if length args = relevant BindFunc
             then Inr (invoke BindFunc reactor identifier callback args)
             else Inl ArgumentMismatch)
      else if \<not> binds TFirst \<and> list_ex binds TWords then
        BindFusion_bind TWords reactor identifier callback args
      else Inl NoMatchingOverload)"
| "BindFission_bind TFirst TWords reactor identifier callback args =
     (if length args < relevant TFirst then Inl ArgumentMismatch
      else
        (case invoke TFirst reactor identifier callback (take (relevant TFirst) args) of
           (init, reactor1) \<Rightarrow>
             (case BindFusion_bind TWords reactor1 identifier callback
                     (drop (relevant TFirst) args) of
                Inl e \<Rightarrow> Inl e
              | Inr (newHandles, reactor2) \<Rightarrow> Inr (init @ newHandles, reactor2))))"



section \<open>The reaction descriptor and its options\<close>

text \<open>
  \<^verbatim>\<open>Reactor.h\<close> declares \<^verbatim>\<open>buildOptions\<close> and the three overloads of
  \<^verbatim>\<open>buildOptionsImpl\<close>; their bodies (\<^verbatim>\<open>Reactor.ipp\<close>) and the class
  \<^verbatim>\<open>Internal::ReactionOptions\<close> (\<^verbatim>\<open>Internal/Options.h\<close>) are not among the sources
  embedded here.
\<close>

text \<open>
  Modelled from the spec: the TypeKey is missing. It is an opaque, totally ordered
  identity, unique per event type; a number here.
\<close>

type_synonym TypeKey = nat

text \<open>
  Modelled from the spec: the enumeration \<^verbatim>\<open>EPriority\<close> that \<^verbatim>\<open>Reactor.h\<close> names is missing.
  The spec has five priority levels.
\<close>

datatype EPriority = REALTIME | HIGH | NORMAL | LOW | LOWEST

text \<open>
  Modelled from the spec: the class \<^verbatim>\<open>Internal::ReactionOptions\<close> is missing; the spec
  gives a reaction's options as a priority among five levels, an optional sync group
  and a single flag, with NORMAL the default priority.
\<close>

record ReactionOptions =
  priority :: EPriority
  sync_group :: "TypeKey option"
  single :: bool

text \<open>
  Modelled from the spec: the constructor of \<^verbatim>\<open>Internal::ReactionOptions\<close> is missing.
  The default priority is NORMAL, no sync group is set and the single flag is unset.
\<close>

definition ReactionOptions_default :: ReactionOptions where
  "ReactionOptions_default = \<lparr>priority = NORMAL, sync_group = None, single = False\<rparr>"

text \<open>The option words \<^verbatim>\<open>Single\<close>, \<^verbatim>\<open>Sync<TSync>\<close> and \<^verbatim>\<open>Priority<P>\<close> of \<^verbatim>\<open>Reactor.h\<close>.\<close>

datatype TOption = Single | Sync TypeKey | Priority EPriority

text \<open>
  Modelled from the spec: the bodies of the three overloads of \<^verbatim>\<open>buildOptionsImpl\<close> are
  missing (\<^verbatim>\<open>Reactor.ipp\<close>). Each overload records the option its placeholder names in
  the options object: Single, the sync group of \<^verbatim>\<open>Sync<TSync>\<close>, the priority of
  \<^verbatim>\<open>Priority<P>\<close>.
\<close>

fun buildOptionsImpl :: "ReactionOptions \<Rightarrow> TOption \<Rightarrow> ReactionOptions" where
  "buildOptionsImpl options Single = options\<lparr>single := True\<rparr>"
| "buildOptionsImpl options (Sync TSync) = options\<lparr>sync_group := Some TSync\<rparr>"
| "buildOptionsImpl options (Priority P) = options\<lparr>priority := P\<rparr>"

text \<open>
  Modelled from the spec: the body of \<^verbatim>\<open>buildOptions\<close> is missing (\<^verbatim>\<open>Reactor.ipp\<close>). It
  populates the passed options object with every option of the pack, one call of
  \<^verbatim>\<open>buildOptionsImpl\<close> for each.
\<close>

definition buildOptions :: "TOption list \<Rightarrow> ReactionOptions \<Rightarrow> ReactionOptions" where
  "buildOptions TOptions options = foldl buildOptionsImpl options TOptions"

text \<open>
  Modelled from the spec: the class \<^verbatim>\<open>threading::Reaction\<close> is missing. Of the fields the
  spec lists, the model keeps the id, the owner (a reactor, by number), the trigger
  keys, the With keys and the options; the counter \<open>active\<close> and the enabled flag of the
  handle change, and live in the state of the runtime, keyed by the reaction.
\<close>

record Reaction =
  rid :: nat
  owner :: nat
  triggers :: "TypeKey list"
  withs :: "TypeKey list"
  options :: ReactionOptions

text \<open>
  Modelled from the spec: the class \<^verbatim>\<open>threading::ReactionHandle\<close> is missing. A handle
  refers to a reaction; it is built from a shared pointer, which may be null.
\<close>

datatype ReactionHandle = ReactionHandle "Reaction option"

section \<open>dsl/word/Network.hpp\<close>

record 'addr NetworkSource =
  name :: string
  address :: 'addr

record NetworkListen =
  hash :: "64 word"
  reaction :: "Reaction option"

text \<open>The default constructor: \<^verbatim>\<open>NetworkListen() : hash(), reaction() {}\<close>.\<close>

definition NetworkListen_new :: NetworkListen where
  "NetworkListen_new = \<lparr>hash = 0, reaction = None\<rparr>"

text \<open>
  \<^verbatim>\<open>Network<T>::bind\<close>. \<^verbatim>\<open>Serialise<T>::hash\<close>, \<^verbatim>\<open>util::generate_reaction\<close> and the
  powerplant's \<^verbatim>\<open>emit<emit::Direct>\<close> are not among the embedded sources and are
  parameters: the hash of \<open>T\<close>, a function from reactor, label and callback to the new
  reaction, and a function that takes the powerplant and the emitted descriptor to the
  powerplant after the emit.
\<close>

definition Network_bind ::
  "64 word \<Rightarrow> ('reactor \<Rightarrow> string \<Rightarrow> 'f \<Rightarrow> Reaction) \<Rightarrow> ('pp \<Rightarrow> NetworkListen \<Rightarrow> 'pp) \<Rightarrow>
     'reactor \<Rightarrow> string \<Rightarrow> 'f \<Rightarrow> 'pp \<Rightarrow> ReactionHandle \<times> 'pp" where
  "Network_bind Serialise_hash generate_reaction emit_Direct reactor label callback powerplant =
     (let task0 = NetworkListen_new;
          task1 = task0\<lparr>hash := Serialise_hash\<rparr>;
          task2 = task1\<lparr>reaction := Some (generate_reaction reactor label callback)\<rparr>;
          handle = ReactionHandle (reaction task2);
          powerplant1 = emit_Direct powerplant task2
      in (handle, powerplant1))"

text \<open>
  \<^verbatim>\<open>Network<T>::get\<close> reads two slots of the thread store, each a pointer that may be
  null. \<^verbatim>\<open>Serialise<T>::deserialise\<close> is a parameter.
\<close>

record 'addr ThreadStore =
  data_value :: "char list option"
  source_value :: "'addr NetworkSource option"

definition Network_get ::
  "(char list \<Rightarrow> 't) \<Rightarrow> 'addr ThreadStore \<Rightarrow> 'addr NetworkSource option \<times> 't option" where
  "Network_get deserialise store =
     (let data = data_value store;
          source = source_value store
      in (case data of
            Some d \<Rightarrow>
              (case source of
                 Some s \<Rightarrow> (Some s, Some (deserialise d))
               | None \<Rightarrow> (None, None))
          | None \<Rightarrow> (None, None)))"

text \<open>
  The trait \<^verbatim>\<open>is_transient\<close>. Its two specialisations are in \<^verbatim>\<open>Network.hpp\<close>; the types
  they are stated on are terms here.
\<close>

datatype cpp_type =
    T_NetworkData cpp_type
  | T_shared_ptr cpp_type
  | T_NetworkSource
  | T_named string

text \<open>
  Modelled from the spec: the primary template of \<^verbatim>\<open>is_transient\<close>
  (\<^verbatim>\<open>dsl/trait/is_transient.hpp\<close>) is missing; a type is transient only when it is marked
  so, hence the last equation.
\<close>

fun is_transient :: "cpp_type \<Rightarrow> bool" where
  "is_transient (T_NetworkData T) = True"
| "is_transient (T_shared_ptr T_NetworkSource) = True"
| "is_transient _ = False"

text \<open>
  Modelled from the spec: the argument gathering that uses the trait is missing. A
  transient source is consumed on read and remembered per reaction: the cache, keyed by
  reaction and type, is updated on every successful gather of a transient value, and a
  gather that finds nothing fresh returns the value the reaction saw last. \<open>gather\<close>
  takes the cache, the reaction's id, the type and what the source holds now.
\<close>

definition gather ::
  "(nat \<times> cpp_type \<Rightarrow> 'v option) \<Rightarrow> nat \<Rightarrow> cpp_type \<Rightarrow> 'v option \<Rightarrow>
     'v option \<times> (nat \<times> cpp_type \<Rightarrow> 'v option)" where
  "gather cache r T fresh =
     (if is_transient T then
        (case fresh of
           Some v \<Rightarrow> (Some v, cache((r, T) := Some v))
         | None \<Rightarrow> (cache (r, T), cache))
      else (fresh, cache))"

section \<open>The runtime: data store, registry, task queue, sync groups, workers, emit\<close>

text \<open>
  None of the engine is among the embedded sources (the headers above declare its
  clients); every definition of this section follows the spec's description of the
  component it names.
\<close>

subsection \<open>DataStore\<close>

text \<open>
  Modelled from the spec: the DataStore is missing. For each TypeKey a slot holds the
  most recent payload (possibly null) and a sequence number that grows with each write.
\<close>

type_synonym 'p DataStore = "TypeKey \<Rightarrow> 'p option \<times> nat"

text \<open>
  Modelled from the spec: the initial DataStore is missing. No slot was ever written:
  every payload is null.
\<close>

definition DataStore_empty :: "'p DataStore" where
  "DataStore_empty = (\<lambda>K. (None, 0))"

text \<open>
  Modelled from the spec: \<^verbatim>\<open>DataStore.put\<close> is missing. It replaces the slot for \<open>K\<close> and
  returns the new sequence number.
\<close>

definition DataStore_put :: "TypeKey \<Rightarrow> 'p \<Rightarrow> 'p DataStore \<Rightarrow> nat \<times> 'p DataStore" where
  "DataStore_put K payload store =
     (let seq = Suc (snd (store K)) in (seq, store(K := (Some payload, seq))))"

text \<open>
  Modelled from the spec: \<^verbatim>\<open>DataStore.get\<close> is missing. It is a snapshot of the slot; the
  payload is null when the slot was never written.
\<close>

definition DataStore_get :: "TypeKey \<Rightarrow> 'p DataStore \<Rightarrow> 'p option \<times> nat" where
  "DataStore_get K store = store K"

subsection \<open>Tasks and the TaskQueue\<close>

text \<open>
  Modelled from the spec: the Task is missing. It holds its reaction, the frozen
  argument bundle and its submit sequence number.
\<close>

record 'p Task =
  task_reaction :: Reaction
  task_args :: "'p option list"
  submit_seq :: nat

text \<open>
  Modelled from the spec: a task is queued with the priority of its reaction and
  belongs to the sync group of its reaction.
\<close>

definition task_priority :: "'p Task \<Rightarrow> EPriority" where
  "task_priority t = priority (options (task_reaction t))"

definition task_sync :: "'p Task \<Rightarrow> TypeKey option" where
  "task_sync t = sync_group (options (task_reaction t))"

text \<open>
  Modelled from the spec: the TaskQueue is missing. It is a priority queue keyed on
  (priority bucket, submit\_seq): five buckets, one for each priority level, and within a
  bucket the tasks in the order of their submit\_seq, first in first out.
\<close>

type_synonym 'p TaskQueue = "EPriority \<Rightarrow> 'p Task list"

definition TaskQueue_empty :: "'p TaskQueue" where
  "TaskQueue_empty = (\<lambda>P. [])"

text \<open>
  Modelled from the spec: the order of the five priority levels is missing. REALTIME is
  the highest, then HIGH, NORMAL, LOW and LOWEST.
\<close>

definition levels :: "EPriority list" where
  "levels = [REALTIME, HIGH, NORMAL, LOW, LOWEST]"

text \<open>
  Modelled from the spec: the insertion into a bucket is missing. The bucket is kept in
  the order of submit\_seq; a task goes behind the tasks that are not later than it.
\<close>

fun bucket_insert :: "'p Task \<Rightarrow> 'p Task list \<Rightarrow> 'p Task list" where
  "bucket_insert t [] = [t]"
| "bucket_insert t (u # us) =
     (if submit_seq t < submit_seq u then t # u # us else u # bucket_insert t us)"

text \<open>
  Modelled from the spec: the push of the TaskQueue is missing. The task goes into the
  bucket of its priority.
\<close>

definition TaskQueue_push :: "'p Task \<Rightarrow> 'p TaskQueue \<Rightarrow> 'p TaskQueue" where
  "TaskQueue_push t q = q(task_priority t := bucket_insert t (q (task_priority t)))"

text \<open>
  Modelled from the spec: the pop of the TaskQueue is missing. It takes the first task
  of the highest bucket that is not empty; on an empty queue there is none.
\<close>

fun pop_from :: "EPriority list \<Rightarrow> 'p TaskQueue \<Rightarrow> ('p Task \<times> 'p TaskQueue) option" where
  "pop_from [] q = None"
| "pop_from (P # Ps) q =
     (case q P of
        [] \<Rightarrow> pop_from Ps q
      | t # ts \<Rightarrow> Some (t, q(P := ts)))"

definition TaskQueue_pop :: "'p TaskQueue \<Rightarrow> ('p Task \<times> 'p TaskQueue) option" where
  "TaskQueue_pop q = pop_from levels q"

text \<open>The tasks a queue holds, and the tasks that \<open>n\<close> successive pops return.\<close>

definition TaskQueue_tasks :: "'p TaskQueue \<Rightarrow> 'p Task list" where
  "TaskQueue_tasks q = concat (map q levels)"

fun pops :: "nat \<Rightarrow> 'p TaskQueue \<Rightarrow> 'p Task list" where
  "pops 0 q = []"
| "pops (Suc n) q =
     (case TaskQueue_pop q of
        None \<Rightarrow> []
      | Some (t, q') \<Rightarrow> t # pops n q')"

definition pop_order :: "'p TaskQueue \<Rightarrow> 'p Task list" where
  "pop_order q = pops (length (TaskQueue_tasks q)) q"

definition push_all :: "'p Task list \<Rightarrow> 'p TaskQueue" where
  "push_all ts = foldl (\<lambda>q t. TaskQueue_push t q) TaskQueue_empty ts"

text \<open>
  Modelled from the spec: the comparison of priority levels is missing. The rank of a
  level is its position: REALTIME is the highest priority, LOWEST the lowest.
\<close>

fun rank :: "EPriority \<Rightarrow> nat" where
  "rank REALTIME = 0"
| "rank HIGH = 1"
| "rank NORMAL = 2"
| "rank LOW = 3"
| "rank LOWEST = 4"

subsection \<open>The state of the runtime\<close>

text \<open>
  Modelled from the spec: the SyncScheduler's state is missing. For each sync group it
  is a running flag and a queue of waiting tasks.
\<close>

record 'p SyncGroup =
  running :: bool
  pending :: "'p Task list"

text \<open>
  Modelled from the spec: the emit scopes are missing. The dispatch core handles LOCAL,
  DIRECT, INITIALIZE and NETWORK.
\<close>

datatype Scope = LOCAL | DIRECT | INITIALIZE | NETWORK

text \<open>
  Modelled from the spec: the runtime object (the power plant) is missing. It owns the
  DataStore, the Registry (\<open>triggered_by\<close>), the enabled flag of each reaction's handle,
  the liveness of each reactor, the counter \<open>active\<close> of each reaction, the TaskQueue and
  the source of submit sequence numbers, the sync groups, the tasks the workers are
  running, and what the scopes INITIALIZE and NETWORK need: the running state of the
  runtime, the buffer of INITIALIZE emits and what was handed to the network.
\<close>

record 'p PowerPlant =
  datastore :: "'p DataStore"
  triggered_by :: "TypeKey \<Rightarrow> Reaction list"
  enabled :: "Reaction \<Rightarrow> bool"
  live :: "nat \<Rightarrow> bool"
  active :: "Reaction \<Rightarrow> nat"
  queue :: "'p TaskQueue"
  next_seq :: nat
  sync :: "TypeKey \<Rightarrow> 'p SyncGroup"
  executing :: "'p Task list"
  started :: bool
  init_buffer :: "(TypeKey \<times> 'p) list"
  network_out :: "(TypeKey \<times> 'p) list"

text \<open>
  Modelled from the spec: the construction of the runtime is missing. Nothing is stored,
  bound, queued, running or buffered; handles are enabled and reactors live; the runtime
  is not yet in its running state.
\<close>

definition PowerPlant_new :: "'p PowerPlant" where
  "PowerPlant_new =
     \<lparr>datastore = DataStore_empty,
      triggered_by = (\<lambda>K. []),
      enabled = (\<lambda>R. True),
      live = (\<lambda>r. True),
      active = (\<lambda>R. 0),
      queue = TaskQueue_empty,
      next_seq = 0,
      sync = (\<lambda>G. \<lparr>running = False, pending = []\<rparr>),
      executing = [],
      started = False,
      init_buffer = [],
      network_out = []\<rparr>"

subsection \<open>Registry\<close>

text \<open>
  Modelled from the spec: \<^verbatim>\<open>Registry.bind\<close> is missing. It appends the reaction to
  \<open>triggered_by[T]\<close> for every \<open>T\<close> in the reaction's triggers.
\<close>

definition Registry_bind :: "Reaction \<Rightarrow> 'p PowerPlant \<Rightarrow> 'p PowerPlant" where
  "Registry_bind R st =
     st\<lparr>triggered_by :=
          (\<lambda>T. if T \<in> set (triggers R) then triggered_by st T @ [R] else triggered_by st T)\<rparr>"

text \<open>
  Modelled from the spec: \<^verbatim>\<open>Registry.lookup\<close> is missing. It returns a snapshot of the
  list of reactions triggered by the key, in the order of their binding.
\<close>

definition Registry_lookup :: "TypeKey \<Rightarrow> 'p PowerPlant \<Rightarrow> Reaction list" where
  "Registry_lookup T st = triggered_by st T"

text \<open>
  Modelled from the spec: \<^verbatim>\<open>Registry.unbind\<close> is missing. It marks the reaction disabled;
  its entries stay in the lists and are skipped at dispatch.
\<close>

definition Registry_unbind :: "Reaction \<Rightarrow> 'p PowerPlant \<Rightarrow> 'p PowerPlant" where
  "Registry_unbind R st = st\<lparr>enabled := (enabled st)(R := False)\<rparr>"

text \<open>
  Modelled from the spec: the enabling of a handle is missing. A disabled reaction can
  be enabled again.
\<close>

definition handle_enable :: "Reaction \<Rightarrow> 'p PowerPlant \<Rightarrow> 'p PowerPlant" where
  "handle_enable R st = st\<lparr>enabled := (enabled st)(R := True)\<rparr>"

text \<open>
  Modelled from the spec: the destruction of a reactor is missing. It ends the liveness
  of the owner; tasks of its reactions are dropped from then on.
\<close>

definition reactor_destroyed :: "nat \<Rightarrow> 'p PowerPlant \<Rightarrow> 'p PowerPlant" where
  "reactor_destroyed r st = st\<lparr>live := (live st)(r := False)\<rparr>"

subsection \<open>SyncScheduler\<close>

text \<open>
  Modelled from the spec: the admission protocol is missing. A task with no sync group
  is admitted. Otherwise, if the group is not running, the running flag is set and the
  task is admitted; else the task is pushed to the group's pending queue. An admitted
  task is in the state Running: it is among the tasks the workers execute.
\<close>

definition admit :: "'p Task \<Rightarrow> 'p PowerPlant \<Rightarrow> 'p PowerPlant" where
  "admit t st =
     (case task_sync t of
        None \<Rightarrow> st\<lparr>executing := executing st @ [t]\<rparr>
      | Some G \<Rightarrow>
          if \<not> running (sync st G)
          then st\<lparr>sync := (sync st)(G := (sync st G)\<lparr>running := True\<rparr>),
                  executing := executing st @ [t]\<rparr>
          else st\<lparr>sync := (sync st)(G := (sync st G)\<lparr>pending := pending (sync st G) @ [t]\<rparr>)\<rparr>)"

text \<open>
  Modelled from the spec: the release protocol is missing. If the group's pending queue
  is empty the running flag is cleared; else the next pending task is popped and
  submitted to the TaskQueue at its original priority (the running flag stays as it is).
\<close>

definition release :: "'p Task \<Rightarrow> 'p PowerPlant \<Rightarrow> 'p PowerPlant" where
  "release t st =
     (case task_sync t of
        None \<Rightarrow> st
      | Some G \<Rightarrow>
          (case pending (sync st G) of
             [] \<Rightarrow> st\<lparr>sync := (sync st)(G := (sync st G)\<lparr>running := False\<rparr>)\<rparr>
           | u # us \<Rightarrow>
               st\<lparr>sync := (sync st)(G := (sync st G)\<lparr>pending := us\<rparr>),
                  queue := TaskQueue_push u (queue st)\<rparr>))"

subsection \<open>EmitPipeline\<close>

text \<open>
  Modelled from the spec: the argument gatherer is missing. The bundle is the new
  payload and, for each With key, what \<^verbatim>\<open>DataStore.get\<close> returns; if a With returns null
  the reaction is skipped (the dependency is not ready). The Withs of this model are
  not transient.
\<close>

definition gather_args :: "'p option \<Rightarrow> Reaction \<Rightarrow> 'p DataStore \<Rightarrow> 'p option list option" where
  "gather_args payload R store =
     (let ws = map (\<lambda>W. fst (DataStore_get W store)) (withs R)
      in if None \<in> set ws then None else Some (payload # ws))"

text \<open>
  Modelled from the spec: step 3 of \<^verbatim>\<open>emit\<close> is missing. A candidate that is disabled or
  whose owner is dead is passed over; one with Single set and \<open>active > 0\<close> is dropped;
  one whose arguments are not ready is skipped; else the task is built, \<open>active\<close> is
  incremented and the task is submitted. Under the scope DIRECT the submission bypasses
  the queue: the task goes to the SyncScheduler's admission at once.
\<close>

definition submit :: "bool \<Rightarrow> 'p option \<Rightarrow> Reaction \<Rightarrow> 'p PowerPlant \<Rightarrow> 'p PowerPlant" where
  "submit inline payload R st =
     (if \<not> (enabled st R \<and> live st (owner R)) then st
      else if single (options R) \<and> 0 < active st R then st
      else
        (case gather_args payload R (datastore st) of
           None \<Rightarrow> st
         | Some bundle \<Rightarrow>
             (let t = \<lparr>task_reaction = R, task_args = bundle, submit_seq = next_seq st\<rparr>;
                  st1 = st\<lparr>active := (active st)(R := Suc (active st R)),
                           next_seq := Suc (next_seq st)\<rparr>
              in if inline then admit t st1
                 else st1\<lparr>queue := TaskQueue_push t (queue st1)\<rparr>)))"

text \<open>
  Modelled from the spec: steps 2 and 3 of \<^verbatim>\<open>emit\<close> are missing. The candidates are the
  registry's list for the key; they are submitted in registry order.
\<close>

definition dispatch :: "bool \<Rightarrow> TypeKey \<Rightarrow> 'p option \<Rightarrow> 'p PowerPlant \<Rightarrow> 'p PowerPlant" where
  "dispatch inline K payload st =
     foldl (\<lambda>s R. submit inline payload R s) st (Registry_lookup K st)"

text \<open>
  Modelled from the spec: step 1 of \<^verbatim>\<open>emit\<close> is missing. The payload is written to the
  DataStore. (The spec's \<section>4.3 exempts a "Local only" scope from the write in a
  parenthesis; its \<section>8, whose first invariant reads the payload back after an emit
  with local scope, and its scenario 4, need the write, and the model follows them.)
\<close>

definition store_payload :: "TypeKey \<Rightarrow> 'p \<Rightarrow> 'p PowerPlant \<Rightarrow> 'p PowerPlant" where
  "store_payload K payload st = st\<lparr>datastore := snd (DataStore_put K payload (datastore st))\<rparr>"

text \<open>
  Modelled from the spec: the normal pipeline of \<^verbatim>\<open>emit\<close> is missing: the write to the
  DataStore, then the dispatch to the TaskQueue.
\<close>

definition emit_local :: "TypeKey \<Rightarrow> 'p \<Rightarrow> 'p PowerPlant \<Rightarrow> 'p PowerPlant" where
  "emit_local K payload st = dispatch False K (Some payload) (store_payload K payload st)"

text \<open>
  Modelled from the spec: \<^verbatim>\<open>emit\<close> and its scopes are missing. LOCAL is the normal
  pipeline. DIRECT bypasses the queue. INITIALIZE is buffered until the runtime runs and
  is then replayed as LOCAL. NETWORK is routed to the network collaborator and triggers
  nothing locally.
\<close>

definition emit :: "Scope \<Rightarrow> TypeKey \<Rightarrow> 'p \<Rightarrow> 'p PowerPlant \<Rightarrow> 'p PowerPlant" where
  "emit scope K payload st =
     (case scope of
        LOCAL \<Rightarrow> emit_local K payload st
      | DIRECT \<Rightarrow> dispatch True K (Some payload) (store_payload K payload st)
      | INITIALIZE \<Rightarrow>
          if started st then emit_local K payload st
          else st\<lparr>init_buffer := init_buffer st @ [(K, payload)]\<rparr>
      | NETWORK \<Rightarrow> st\<lparr>network_out := network_out st @ [(K, payload)]\<rparr>)"

text \<open>
  Modelled from the spec: the start of the runtime is missing. On entry to the running
  state the buffered INITIALIZE emits are replayed as LOCAL, in their order.
\<close>

definition start :: "'p PowerPlant \<Rightarrow> 'p PowerPlant" where
  "start st =
     foldl (\<lambda>s (K, payload). emit_local K payload s)
       (st\<lparr>started := True, init_buffer := []\<rparr>) (init_buffer st)"

text \<open>
  Modelled from the spec: the EveryScheduler's fire is missing. It schedules the
  reactions of the per-Every marker type through the normal path with a zero payload,
  bypassing the DataStore write.
\<close>

definition every_fire :: "TypeKey \<Rightarrow> 'p PowerPlant \<Rightarrow> 'p PowerPlant" where
  "every_fire K st = dispatch False K None st"

subsection \<open>WorkerPool\<close>

text \<open>
  Modelled from the spec: steps 1 to 4 of the worker loop are missing. The worker pops
  the next task (on an empty queue it waits: nothing changes); if the reaction is
  disabled or its owner dead, it decrements \<open>active\<close> and drops the task; else it consults
  the SyncScheduler, which admits or parks the task.
\<close>

definition worker_pop :: "'p PowerPlant \<Rightarrow> 'p PowerPlant" where
  "worker_pop st =
     (case TaskQueue_pop (queue st) of
        None \<Rightarrow> st
      | Some (t, q') \<Rightarrow>
          (let R = task_reaction t;
               st1 = st\<lparr>queue := q'\<rparr>
           in if \<not> (enabled st R \<and> live st (owner R))
              then st1\<lparr>active := (active st1)(R := active st1 R - 1)\<rparr>
              else admit t st1))"

text \<open>
  Modelled from the spec: steps 5 and 6 of the worker loop are missing. When the task
  that runs at position \<open>i\<close> finishes (or fails), \<open>active\<close> of its reaction is decremented
  and its SyncScheduler slot is released.
\<close>

definition complete :: "nat \<Rightarrow> 'p PowerPlant \<Rightarrow> 'p PowerPlant" where
  "complete i st =
     (if i < length (executing st) then
        (let t = executing st ! i;
             R = task_reaction t;
             st1 = st\<lparr>executing := take i (executing st) @ drop (Suc i) (executing st),
                      active := (active st)(R := active st R - 1)\<rparr>
         in release t st1)
      else st)"

subsection \<open>Runs of the runtime\<close>

text \<open>
  Modelled from the spec: the threads of the runtime are missing. A run is a sequence
  of atomic events, in any order: a reactor binds a reaction, a handle disables or
  enables one, a reactor is destroyed, some thread emits, the timer fires, the runtime
  starts, a worker pops the next task, a running task completes. The shutdown of the
  runtime, which refuses new submissions and creates no task, is left out.
\<close>

datatype 'p event =
    Bind Reaction
  | Unbind Reaction
  | Enable Reaction
  | Destroy nat
  | Emit Scope TypeKey 'p
  | EveryFire TypeKey
  | Start
  | WorkerPop
  | Complete nat

text \<open>Modelled from the spec: what each event does to the state, by the operations above.\<close>

fun step :: "'p PowerPlant \<Rightarrow> 'p event \<Rightarrow> 'p PowerPlant" where
  "step st (Bind R) = Registry_bind R st"
| "step st (Unbind R) = Registry_unbind R st"
| "step st (Enable R) = handle_enable R st"
| "step st (Destroy r) = reactor_destroyed r st"
| "step st (Emit scope K payload) = emit scope K payload st"
| "step st (EveryFire K) = every_fire K st"
| "step st Start = start st"
| "step st WorkerPop = worker_pop st"
| "step st (Complete i) = complete i st"

text \<open>Modelled from the spec: the state a run reaches from the new runtime.\<close>

definition run :: "'p event list \<Rightarrow> 'p PowerPlant" where
  "run evs = foldl step PowerPlant_new evs"

text \<open>
  The tasks of a reaction that exist in the system: queued, running, or parked in the
  pending queue of the reaction's sync group. The running tasks of a sync group.
\<close>

definition of_reaction :: "Reaction \<Rightarrow> 'p Task list \<Rightarrow> 'p Task list" where
  "of_reaction R ts = filter (\<lambda>t. task_reaction t = R) ts"

definition parked :: "Reaction \<Rightarrow> 'p PowerPlant \<Rightarrow> 'p Task list" where
  "parked R st =
     (case sync_group (options R) of
        None \<Rightarrow> []
      | Some G \<Rightarrow> pending (sync st G))"

definition tasks_of :: "Reaction \<Rightarrow> 'p PowerPlant \<Rightarrow> 'p Task list" where
  "tasks_of R st =
     of_reaction R (TaskQueue_tasks (queue st)) @ of_reaction R (executing st)
       @ of_reaction R (parked R st)"

definition running_in :: "TypeKey \<Rightarrow> 'p PowerPlant \<Rightarrow> 'p Task list" where
  "running_in G st = filter (\<lambda>t. task_sync t = Some G) (executing st)"

subsection \<open>Statements about the TaskQueue\<close>

text \<open>
  The order of the claim: \<open>t\<close> comes before \<open>u\<close> when its priority is strictly higher, or
  the priorities are equal and its submit\_seq is smaller.
\<close>

definition before :: "'p Task \<Rightarrow> 'p Task \<Rightarrow> bool" where
  "before t u = (rank (task_priority t) < rank (task_priority u)
                 \<or> (task_priority t = task_priority u \<and> submit_seq t < submit_seq u))"

text \<open>
  A queue is well formed when each bucket holds tasks of its own priority only, in the
  order of their submit\_seq.
\<close>

definition TaskQueue_wf :: "'p TaskQueue \<Rightarrow> bool" where
  "TaskQueue_wf q = (\<forall>P. list_all (\<lambda>t. task_priority t = P) (q P)
                         \<and> sorted_wrt (\<lambda>t u. submit_seq t \<le> submit_seq u) (q P))"

text \<open>The queues in use: any sequence of pushes and pops from the empty queue.\<close>

datatype 'p queue_op = Push "'p Task" | Pop

fun apply_op :: "'p TaskQueue \<Rightarrow> 'p queue_op \<Rightarrow> 'p TaskQueue" where
  "apply_op q (Push t) = TaskQueue_push t q"
| "apply_op q Pop = (case TaskQueue_pop q of None \<Rightarrow> q | Some (t, q') \<Rightarrow> q')"

text \<open>A task of a reaction with the given priority and no other option, for examples.\<close>

abbreviation example_task :: "EPriority \<Rightarrow> nat \<Rightarrow> nat Task" where
  "example_task P n \<equiv>
     \<lparr>task_reaction = \<lparr>rid = 0, owner = 0, triggers = [], withs = [],
                        options = \<lparr>priority = P, sync_group = None, single = False\<rparr>\<rparr>,
      task_args = [], submit_seq = n\<rparr>"


subsection \<open>Statements about the states of the runtime\<close>

text \<open>
  Four properties that hold of every state a run reaches: a pending queue holds tasks of
  its own group only; the counter \<open>active\<close> of a reaction is the number of its tasks in the
  system; a reaction with Single has at most one; a sync group has at most one running
  task, and its running flag is set while it has one.
\<close>

definition pending_in_group :: "'p PowerPlant \<Rightarrow> bool" where
  "pending_in_group st = (\<forall>G. list_all (\<lambda>t. task_sync t = Some G) (pending (sync st G)))"

definition active_counts :: "'p PowerPlant \<Rightarrow> bool" where
  "active_counts st = (\<forall>R. active st R = length (tasks_of R st))"

definition single_bounded :: "'p PowerPlant \<Rightarrow> bool" where
  "single_bounded st = (\<forall>R. single (options R) \<longrightarrow> active st R \<le> 1)"

definition sync_exclusive :: "'p PowerPlant \<Rightarrow> bool" where
  "sync_exclusive st =
     (\<forall>G. length (running_in G st) \<le> 1 \<and> (running_in G st \<noteq> [] \<longrightarrow> running (sync st G)))"

definition consistent :: "'p PowerPlant \<Rightarrow> bool" where
  "consistent st =
     (pending_in_group st \<and> active_counts st \<and> single_bounded st \<and> sync_exclusive st)"

text \<open>
  An event emits to a key when it is an emit of that key, in any scope. A key is
  unwritten in a state when its slot is as in the empty store and no buffered
  INITIALIZE emit is for it.
\<close>

fun emits_to :: "TypeKey \<Rightarrow> 'p event \<Rightarrow> bool" where
  "emits_to K (Emit scope K' payload) = (K' = K)"
| "emits_to K e = False"

definition unwritten :: "TypeKey \<Rightarrow> 'p PowerPlant \<Rightarrow> bool" where
  "unwritten K st = (DataStore_get K (datastore st) = (None, 0) \<and> K \<notin> fst ` set (init_buffer st))"

text \<open>A reaction triggered by one key, with the given id and options, for examples.\<close>

abbreviation example_reaction :: "nat \<Rightarrow> TypeKey \<Rightarrow> ReactionOptions \<Rightarrow> Reaction" where
  "example_reaction n K opts \<equiv> \<lparr>rid = n, owner = 0, triggers = [K], withs = [], options = opts\<rparr>"

section \<open>The identifier of a reaction\<close>

text \<open>
  C8. For every user label and every pair of types (fusion type, callback type),
  \<^verbatim>\<open>get_identifier\<close> returns a list of exactly three strings: the label unchanged, the
  demangled name of the fusion type and the demangled name of the callback type, in
  that order.
\<close>

theorem get_identifier_triple:
  "get_identifier demangle TFusion TFunc usr = [usr, demangle TFusion, demangle TFunc]
   \<and> length (get_identifier demangle TFusion TFunc usr) = 3
   \<and> get_identifier demangle TFusion TFunc usr ! 0 = usr
   \<and> get_identifier demangle TFusion TFunc usr ! 1 = demangle TFusion
   \<and> get_identifier demangle TFusion TFunc usr ! 2 = demangle TFunc"
  by (simp add: get_identifier_def reserve_def push_back_def)

section \<open>Fusion of the bind members\<close>










section \<open>The options of a reaction\<close>

text \<open>
  C7. Calling \<^verbatim>\<open>buildOptions\<close> with an empty option pack leaves the ReactionOptions
  object at its defaults: priority NORMAL, the single flag unset, no sync group. Each
  overload of \<^verbatim>\<open>buildOptionsImpl\<close> modifies only the field of the option it handles:
  Single sets the single flag, Sync sets the sync group, Priority sets the priority.
\<close>

theorem buildOptions_empty_pack:
  "buildOptions [] ReactionOptions_default = ReactionOptions_default
   \<and> priority (buildOptions [] ReactionOptions_default) = NORMAL
   \<and> single (buildOptions [] ReactionOptions_default) = False
   \<and> sync_group (buildOptions [] ReactionOptions_default) = None
   \<and> buildOptions [] opts = opts
   \<and> buildOptionsImpl opts Single = opts\<lparr>single := True\<rparr>
   \<and> single (buildOptionsImpl opts Single) = True
   \<and> priority (buildOptionsImpl opts Single) = priority opts
   \<and> sync_group (buildOptionsImpl opts Single) = sync_group opts
   \<and> buildOptionsImpl opts (Sync TSync) = opts\<lparr>sync_group := Some TSync\<rparr>
   \<and> sync_group (buildOptionsImpl opts (Sync TSync)) = Some TSync
   \<and> priority (buildOptionsImpl opts (Sync TSync)) = priority opts
   \<and> single (buildOptionsImpl opts (Sync TSync)) = single opts
   \<and> buildOptionsImpl opts (Priority P) = opts\<lparr>priority := P\<rparr>
   \<and> priority (buildOptionsImpl opts (Priority P)) = P
   \<and> sync_group (buildOptionsImpl opts (Priority P)) = sync_group opts
   \<and> single (buildOptionsImpl opts (Priority P)) = single opts"
  by (simp add: buildOptions_def ReactionOptions_default_def)

section \<open>Network inputs\<close>

text \<open>
  C10. \<^verbatim>\<open>Network<T>::get\<close> returns a pair whose elements are both null or both non-null:
  if either slot of the thread store (the serialised bytes or the NetworkSource) is
  null it returns (null, null); if both are non-null it returns a copy of the stored
  NetworkSource together with the value deserialised from the stored bytes.
\<close>

theorem Network_get_pair:
  "(fst (Network_get deserialise store) = None \<longleftrightarrow> snd (Network_get deserialise store) = None)
   \<and> (data_value store = None \<or> source_value store = None
        \<longrightarrow> Network_get deserialise store = (None, None))
   \<and> (\<forall>d s. data_value store = Some d \<and> source_value store = Some s
        \<longrightarrow> Network_get deserialise store = (Some s, Some (deserialise d)))"
  by (simp add: Network_get_def split: option.splits)

theorem Network_get_pair_witness:
  "Network_get length
     \<lparr>data_value = Some ''ab'', source_value = Some \<lparr>name = ''robot'', address = (7::nat)\<rparr>\<rparr>
     = (Some \<lparr>name = ''robot'', address = 7\<rparr>, Some 2)
   \<and> Network_get length
       \<lparr>data_value = Some ''ab'', source_value = (None :: nat NetworkSource option)\<rparr>
     = (None, None)
   \<and> Network_get length
       \<lparr>data_value = None, source_value = Some \<lparr>name = ''robot'', address = (7::nat)\<rparr>\<rparr>
     = (None, None)"
  using Network_get_pair [of length
      "\<lparr>data_value = Some ''ab'', source_value = Some \<lparr>name = ''robot'', address = (7::nat)\<rparr>\<rparr>"]
    Network_get_pair [of length
      "\<lparr>data_value = Some ''ab'', source_value = (None :: nat NetworkSource option)\<rparr>"]
    Network_get_pair [of length
      "\<lparr>data_value = None, source_value = Some \<lparr>name = ''robot'', address = (7::nat)\<rparr>\<rparr>"]
  by simp

text \<open>
  C9. For every type \<open>T\<close> the trait \<^verbatim>\<open>is_transient<NetworkData<T>>\<close> holds, and
  \<^verbatim>\<open>is_transient<std::shared_ptr<NetworkSource>>\<close> holds: the network inputs are marked
  transient, so the value a reaction observed last is preserved for that reaction: a
  later gather that finds nothing fresh returns it, whatever another reaction gathered
  in between.
\<close>

theorem network_inputs_transient:
  "is_transient (T_NetworkData T)
   \<and> is_transient (T_shared_ptr T_NetworkSource)
   \<and> (is_transient U \<and> r' \<noteq> r \<longrightarrow>
        fst (gather cache r U (Some v)) = Some v
        \<and> fst (gather (snd (gather cache r U (Some v))) r U None) = Some v
        \<and> fst (gather (snd (gather (snd (gather cache r U (Some v))) r' U w)) r U None) = Some v)"
  by (simp add: gather_def split: option.splits)

theorem network_inputs_transient_witness:
  "is_transient (T_NetworkData (T_named ''Ping''))
   \<and> fst (gather (\<lambda>k. None) 1 (T_NetworkData (T_named ''Ping'')) (Some (5::nat))) = Some 5
   \<and> fst (gather (snd (gather (\<lambda>k. None) 1 (T_NetworkData (T_named ''Ping'')) (Some (5::nat))))
           1 (T_NetworkData (T_named ''Ping'')) None) = Some 5
   \<and> fst (gather (snd (gather (snd (gather (\<lambda>k. None) 1 (T_NetworkData (T_named ''Ping''))
                                        (Some (5::nat))))
                           2 (T_NetworkData (T_named ''Ping'')) (Some 9)))
           1 (T_NetworkData (T_named ''Ping'')) None) = Some 5"
  using network_inputs_transient [of "T_named ''Ping''" "T_NetworkData (T_named ''Ping'')" 2 1
      "\<lambda>k. None" "5::nat" "Some 9"]
  by simp

section \<open>The order of the TaskQueue\<close>

lemma set_bucket_insert: "set (bucket_insert t b) = insert t (set b)"
  by (induction b) auto

lemma mset_bucket_insert: "mset (bucket_insert t b) = add_mset t (mset b)"
  by (induction b) auto

lemma sorted_bucket_insert:
  "sorted_wrt (\<lambda>t u. submit_seq t \<le> submit_seq u) b \<Longrightarrow>
   sorted_wrt (\<lambda>t u. submit_seq t \<le> submit_seq u) (bucket_insert t b)"
  by (induction b) (auto simp: set_bucket_insert)

lemma filter_bucket_insert: "\<not> Q t \<Longrightarrow> filter Q (bucket_insert t b) = filter Q b"
  by (induction b) auto

lemma rank_inj: "rank P = rank P' \<Longrightarrow> P = P'"
  by (cases P; cases P') simp_all

lemma mem_levels: "P \<in> set levels"
  by (cases P) (simp_all add: levels_def)

lemma distinct_levels: "distinct levels"
  by (simp add: levels_def)

lemma TaskQueue_wf_empty: "TaskQueue_wf TaskQueue_empty"
  by (simp add: TaskQueue_wf_def TaskQueue_empty_def)

lemma TaskQueue_wf_push: "TaskQueue_wf q \<Longrightarrow> TaskQueue_wf (TaskQueue_push t q)"
  by (auto simp: TaskQueue_wf_def TaskQueue_push_def list_all_iff set_bucket_insert
      sorted_bucket_insert)

lemma concat_map_upd_notin: "P \<notin> set Ps \<Longrightarrow> map (q(P := b)) Ps = map q Ps"
  by (induction Ps) auto

lemma mset_concat_upd:
  "distinct Ps \<Longrightarrow> P \<in> set Ps \<Longrightarrow> mset (q' ) = add_mset t (mset (q P)) \<Longrightarrow>
   mset (concat (map (q(P := q')) Ps)) = add_mset t (mset (concat (map q Ps)))"
  by (induction Ps) (auto simp: concat_map_upd_notin)

lemma mset_tasks_push:
  "mset (TaskQueue_tasks (TaskQueue_push t q)) = add_mset t (mset (TaskQueue_tasks q))"
  unfolding TaskQueue_tasks_def TaskQueue_push_def
  by (rule mset_concat_upd) (simp_all add: distinct_levels mem_levels mset_bucket_insert)

lemma pop_from_Some:
  "pop_from Ps q = Some (t, q') \<Longrightarrow> distinct Ps \<Longrightarrow>
   concat (map q Ps) = t # concat (map q' Ps) \<and> (\<exists>P\<in>set Ps. q' = q(P := tl (q P)) \<and> q P \<noteq> [])"
proof (induction Ps)
  case Nil
  then show ?case by simp
next
  case (Cons P Ps)
  show ?case
  proof (cases "q P")
    case Nil
    with Cons.prems have p: "pop_from Ps q = Some (t, q')" and d: "distinct Ps" and n: "P \<notin> set Ps"
      by simp_all
    from Cons.IH [OF p d] obtain P' where c: "concat (map q Ps) = t # concat (map q' Ps)"
      and P': "P' \<in> set Ps" "q' = q(P' := tl (q P'))" "q P' \<noteq> []" by blast
    from P' n have "q' P = q P" by auto
    with Nil have e: "q' P = []" by simp
    have "concat (map q (P # Ps)) = t # concat (map q' (P # Ps))"
      using c Nil e by simp
    moreover have "\<exists>P\<in>set (P # Ps). q' = q(P := tl (q P)) \<and> q P \<noteq> []"
      using P' by (intro bexI [of _ P']) simp_all
    ultimately show ?thesis by blast
  next
    case (Cons u us)
    with Cons.prems have t: "t = u" and q': "q' = q(P := us)" and n: "P \<notin> set Ps"
      by simp_all
    have m: "map q' Ps = map q Ps"
      unfolding q' using n by (rule concat_map_upd_notin)
    have "q' P = us" by (simp add: q')
    with Cons t have "concat (map q (P # Ps)) = t # concat (map q' (P # Ps))"
      by (simp only: list.map concat.simps m) simp
    moreover have "q' = q(P := tl (q P)) \<and> q P \<noteq> []"
      using q' Cons by simp
    then have "\<exists>P\<in>set (P # Ps). q' = q(P := tl (q P)) \<and> q P \<noteq> []"
      by (intro bexI [of _ P]) simp_all
    ultimately show ?thesis by blast
  qed
qed

lemma pop_from_None: "pop_from Ps q = None \<Longrightarrow> concat (map q Ps) = []"
  by (induction Ps) (auto split: list.splits)

lemma TaskQueue_pop_Some:
  "TaskQueue_pop q = Some (t, q') \<Longrightarrow> TaskQueue_tasks q = t # TaskQueue_tasks q'"
  using pop_from_Some [of levels q t q'] by (simp add: TaskQueue_pop_def TaskQueue_tasks_def distinct_levels)

lemma TaskQueue_pop_None: "TaskQueue_pop q = None \<Longrightarrow> TaskQueue_tasks q = []"
  using pop_from_None [of levels q] by (simp add: TaskQueue_pop_def TaskQueue_tasks_def)

lemma TaskQueue_pop_upd:
  "TaskQueue_pop q = Some (t, q') \<Longrightarrow> \<exists>P. q' = q(P := tl (q P)) \<and> q P \<noteq> []"
  using pop_from_Some [of levels q t q'] by (auto simp: TaskQueue_pop_def distinct_levels)

lemma TaskQueue_wf_pop: "TaskQueue_wf q \<Longrightarrow> TaskQueue_pop q = Some (t, q') \<Longrightarrow> TaskQueue_wf q'"
proof -
  assume wf: "TaskQueue_wf q" and p: "TaskQueue_pop q = Some (t, q')"
  from TaskQueue_pop_upd [OF p] obtain P where q': "q' = q(P := tl (q P))" and ne: "q P \<noteq> []"
    by blast
  from wf have "list_all (\<lambda>t. task_priority t = P) (q P)"
    and "sorted_wrt (\<lambda>t u. submit_seq t \<le> submit_seq u) (q P)"
    by (simp_all add: TaskQueue_wf_def)
  with ne have "list_all (\<lambda>t. task_priority t = P) (tl (q P))"
    and "sorted_wrt (\<lambda>t u. submit_seq t \<le> submit_seq u) (tl (q P))"
    by (cases "q P"; simp)+
  with wf q' show ?thesis by (simp add: TaskQueue_wf_def)
qed

lemma pops_take: "pops n q = take n (TaskQueue_tasks q)"
proof (induction n arbitrary: q)
  case 0
  then show ?case by simp
next
  case (Suc n)
  show ?case
  proof (cases "TaskQueue_pop q")
    case None
    then show ?thesis by (simp add: TaskQueue_pop_None)
  next
    case (Some a)
    then obtain t q' where "TaskQueue_pop q = Some (t, q')" by (cases a) auto
    with Suc show ?thesis by (simp add: TaskQueue_pop_Some)
  qed
qed

lemma pop_order_tasks: "pop_order q = TaskQueue_tasks q"
  by (simp add: pop_order_def pops_take)

lemma TaskQueue_wf_apply_op: "TaskQueue_wf q \<Longrightarrow> TaskQueue_wf (apply_op q x)"
  by (cases x) (auto simp: TaskQueue_wf_push split: option.splits dest: TaskQueue_wf_pop)

lemma TaskQueue_wf_foldl_ops: "TaskQueue_wf q \<Longrightarrow> TaskQueue_wf (foldl apply_op q xs)"
  by (induction xs arbitrary: q) (simp_all add: TaskQueue_wf_apply_op)

lemma TaskQueue_wf_sorted:
  assumes "TaskQueue_wf q"
  shows "sorted_wrt (\<lambda>t u. \<not> before u t) (TaskQueue_tasks q)"
proof -
  have b: "\<And>P. \<forall>t\<in>set (q P). task_priority t = P"
    and s: "\<And>P. sorted_wrt (\<lambda>t u. submit_seq t \<le> submit_seq u) (q P)"
    using assms by (simp_all add: TaskQueue_wf_def list_all_iff)
  have in_bucket: "\<And>P. sorted_wrt (\<lambda>t u. \<not> before u t) (q P)"
  proof -
    fix P
    show "sorted_wrt (\<lambda>t u. \<not> before u t) (q P)"
      by (rule sorted_wrt_mono_rel [OF _ s [of P]]) (use b [of P] in \<open>auto simp: before_def\<close>)
  qed
  have prio: "\<And>P t. t \<in> set (q P) \<Longrightarrow> task_priority t = P"
    using b by blast
  show ?thesis
    unfolding TaskQueue_tasks_def levels_def
    by (simp add: sorted_wrt_append in_bucket) (auto simp: before_def dest!: prio)
qed

lemma mset_push_all_aux:
  "mset (TaskQueue_tasks (foldl (\<lambda>q t. TaskQueue_push t q) q ts)) = mset (TaskQueue_tasks q) + mset ts"
  by (induction ts arbitrary: q) (simp_all add: mset_tasks_push)

lemma TaskQueue_tasks_empty: "TaskQueue_tasks TaskQueue_empty = []"
  by (simp add: TaskQueue_tasks_def TaskQueue_empty_def)

lemma mset_push_all: "mset (TaskQueue_tasks (push_all ts)) = mset ts"
  by (simp add: push_all_def mset_push_all_aux TaskQueue_tasks_empty)

text \<open>
  C4. For every set of tasks in the TaskQueue the pop order is determined by (priority
  descending, submit\_seq ascending): every pushed task is popped, a task is popped
  before every task of strictly lower priority, and among tasks of equal priority the
  one with the smaller submit\_seq is popped first.
\<close>

theorem TaskQueue_pop_order:
  "mset (pop_order (push_all ts)) = mset ts
   \<and> (\<forall>i j. i < length (pop_order (foldl apply_op TaskQueue_empty xs))
          \<and> j < length (pop_order (foldl apply_op TaskQueue_empty xs))
          \<and> before (pop_order (foldl apply_op TaskQueue_empty xs) ! i)
                    (pop_order (foldl apply_op TaskQueue_empty xs) ! j)
        \<longrightarrow> i < j)"
proof -
  let ?po = "pop_order (foldl apply_op TaskQueue_empty xs)"
  have "TaskQueue_wf (foldl apply_op TaskQueue_empty xs)"
    by (rule TaskQueue_wf_foldl_ops) (rule TaskQueue_wf_empty)
  then have s: "sorted_wrt (\<lambda>t u. \<not> before u t) ?po"
    by (simp add: pop_order_tasks TaskQueue_wf_sorted)
  have "i < j" if "i < length ?po" "j < length ?po" "before (?po ! i) (?po ! j)" for i j
  proof (rule ccontr)
    assume "\<not> i < j"
    then consider "i = j" | "j < i" by linarith
    then show False
    proof cases
      case 1
      with that show False by (simp add: before_def)
    next
      case 2
      from sorted_wrt_nth_less [OF s 2 that(1)] that(3) show False by simp
    qed
  qed
  then show ?thesis by (simp add: pop_order_tasks mset_push_all)
qed


theorem TaskQueue_pop_order_witness:
  "pop_order (push_all [example_task LOW 0, example_task HIGH 1, example_task NORMAL 2,
                        example_task HIGH 3])
     = [example_task HIGH 1, example_task HIGH 3, example_task NORMAL 2, example_task LOW 0]
   \<and> pop_order (foldl apply_op TaskQueue_empty
        [Push (example_task LOW 0), Push (example_task HIGH 3), Push (example_task NORMAL 2),
         Push (example_task HIGH 1), Pop, Push (example_task NORMAL 4)])
     = [example_task HIGH 3, example_task NORMAL 2, example_task NORMAL 4, example_task LOW 0]
   \<and> before (example_task HIGH 3) (example_task NORMAL 2)
   \<and> before (example_task NORMAL 2) (example_task NORMAL 4)
   \<and> (0::nat) < 1 \<and> (1::nat) < 2"
  using TaskQueue_pop_order
    [of "[example_task LOW 0, example_task HIGH 1, example_task NORMAL 2, example_task HIGH 3]"
        "[Push (example_task LOW 0), Push (example_task HIGH 3), Push (example_task NORMAL 2),
          Push (example_task HIGH 1), Pop, Push (example_task NORMAL 4)]"]
  by (simp add: pop_order_def push_all_def TaskQueue_push_def TaskQueue_pop_def
      TaskQueue_tasks_def TaskQueue_empty_def levels_def task_priority_def before_def)



section \<open>The states a run reaches\<close>

subsection \<open>Counting the tasks of a reaction\<close>

lemma filter_concat_insert:
  "\<not> Q t \<Longrightarrow> filter Q (concat (map (q(P := bucket_insert t (q P))) Ps)) = filter Q (concat (map q Ps))"
  by (induction Ps) (simp_all add: filter_bucket_insert)

lemma of_reaction_push_other:
  "task_reaction t \<noteq> R \<Longrightarrow>
   of_reaction R (TaskQueue_tasks (TaskQueue_push t q)) = of_reaction R (TaskQueue_tasks q)"
  unfolding of_reaction_def TaskQueue_tasks_def TaskQueue_push_def
  by (rule filter_concat_insert) simp

lemma length_filter_mset: "length (filter Q xs) = size (filter_mset Q (mset xs))"
  by (metis mset_filter size_mset)

lemma length_of_reaction_push:
  "length (of_reaction R (TaskQueue_tasks (TaskQueue_push t q)))
     = (if task_reaction t = R then Suc (length (of_reaction R (TaskQueue_tasks q)))
        else length (of_reaction R (TaskQueue_tasks q)))"
  by (simp add: of_reaction_def length_filter_mset mset_tasks_push)

lemma length_of_reaction_pop:
  "TaskQueue_pop q = Some (t, q') \<Longrightarrow>
   length (of_reaction R (TaskQueue_tasks q))
     = (if task_reaction t = R then Suc (length (of_reaction R (TaskQueue_tasks q')))
        else length (of_reaction R (TaskQueue_tasks q')))"
  by (simp add: of_reaction_def TaskQueue_pop_Some)

lemma length_of_reaction_remove:
  "i < length xs \<Longrightarrow>
   length (of_reaction R xs)
     = (if task_reaction (xs ! i) = R then Suc (length (of_reaction R (take i xs @ drop (Suc i) xs)))
        else length (of_reaction R (take i xs @ drop (Suc i) xs)))"
proof -
  assume "i < length xs"
  then have "xs = take i xs @ xs ! i # drop (Suc i) xs" by (rule id_take_nth_drop)
  then have "of_reaction R xs = of_reaction R (take i xs @ xs ! i # drop (Suc i) xs)" by simp
  then show ?thesis by (simp add: of_reaction_def)
qed

lemma of_reaction_Cons:
  "of_reaction R (u # us) = (if task_reaction u = R then u # of_reaction R us else of_reaction R us)"
  by (simp add: of_reaction_def)

lemma parked_update [simp]:
  "parked R (st\<lparr>queue := q\<rparr>) = parked R st"
  "parked R (st\<lparr>active := a\<rparr>) = parked R st"
  "parked R (st\<lparr>next_seq := n\<rparr>) = parked R st"
  "parked R (st\<lparr>executing := e\<rparr>) = parked R st"
  by (simp_all add: parked_def split: option.splits)

lemma tasks_of_cong:
  "queue st' = queue st \<Longrightarrow> executing st' = executing st \<Longrightarrow> sync st' = sync st \<Longrightarrow>
   tasks_of R st' = tasks_of R st"
  by (simp add: tasks_of_def parked_def split: option.splits)

lemma running_in_cong: "executing st' = executing st \<Longrightarrow> running_in G st' = running_in G st"
  by (simp add: running_in_def)

subsection \<open>Admission\<close>

lemma admit_frame:
  "queue (admit t st) = queue st" "active (admit t st) = active st"
  "datastore (admit t st) = datastore st" "triggered_by (admit t st) = triggered_by st"
  "enabled (admit t st) = enabled st" "live (admit t st) = live st"
  "next_seq (admit t st) = next_seq st" "started (admit t st) = started st"
  "init_buffer (admit t st) = init_buffer st" "network_out (admit t st) = network_out st"
  by (simp_all add: admit_def split: option.splits)

lemma tasks_of_admit_other:
  "task_reaction t \<noteq> R \<Longrightarrow> tasks_of R (admit t st) = tasks_of R st"
  by (auto simp: admit_def tasks_of_def parked_def of_reaction_def split: option.splits)

lemma length_tasks_of_admit:
  "length (tasks_of R (admit t st))
     = (if task_reaction t = R then Suc (length (tasks_of R st)) else length (tasks_of R st))"
  by (auto simp: admit_def tasks_of_def parked_def of_reaction_def task_sync_def split: option.splits)

lemma pending_in_group_admit: "pending_in_group st \<Longrightarrow> pending_in_group (admit t st)"
  by (auto simp: admit_def pending_in_group_def split: option.splits)

lemma running_in_admit_flag:
  "running (sync st G) \<Longrightarrow>
   running_in G (admit t st) = running_in G st \<and> running (sync (admit t st) G)"
  by (auto simp: admit_def running_in_def split: option.splits)

lemma sync_exclusive_admit: "sync_exclusive st \<Longrightarrow> sync_exclusive (admit t st)"
  unfolding sync_exclusive_def
proof (intro allI)
  fix G
  assume a: "\<forall>G. length (running_in G st) \<le> 1 \<and> (running_in G st \<noteq> [] \<longrightarrow> running (sync st G))"
  then have g: "length (running_in G st) \<le> 1" "running_in G st \<noteq> [] \<Longrightarrow> running (sync st G)"
    by simp_all
  show "length (running_in G (admit t st)) \<le> 1
        \<and> (running_in G (admit t st) \<noteq> [] \<longrightarrow> running (sync (admit t st) G))"
  proof (cases "running (sync st G)")
    case True
    with running_in_admit_flag [OF True, of t] g show ?thesis by simp
  next
    case False
    with g have "running_in G st = []" by blast
    with False show ?thesis
      by (auto simp: admit_def running_in_def split: option.splits)
  qed
qed


subsection \<open>Release\<close>

lemma release_frame:
  "executing (release t st) = executing st" "active (release t st) = active st"
  "datastore (release t st) = datastore st" "triggered_by (release t st) = triggered_by st"
  "enabled (release t st) = enabled st" "live (release t st) = live st"
  "next_seq (release t st) = next_seq st" "started (release t st) = started st"
  "init_buffer (release t st) = init_buffer st" "network_out (release t st) = network_out st"
  by (simp_all add: release_def split: option.splits list.splits)

lemma pending_in_group_release: "pending_in_group st \<Longrightarrow> pending_in_group (release t st)"
  unfolding pending_in_group_def
proof (intro allI)
  fix G
  assume "\<forall>G. list_all (\<lambda>t. task_sync t = Some G) (pending (sync st G))"
  then have a: "list_all (\<lambda>t. task_sync t = Some G) (pending (sync st G))" by simp
  then have "list_all (\<lambda>t. task_sync t = Some G) (tl (pending (sync st G)))"
    by (cases "pending (sync st G)") simp_all
  with a show "list_all (\<lambda>t. task_sync t = Some G) (pending (sync (release t st) G))"
    by (auto simp: release_def split: option.splits list.splits)
qed

lemma length_tasks_of_release:
  "pending_in_group st \<Longrightarrow> length (tasks_of R (release t st)) = length (tasks_of R st)"
proof (cases "task_sync t")
  case None
  then show ?thesis by (simp add: release_def)
next
  case (Some G)
  assume p: "pending_in_group st"
  show ?thesis
  proof (cases "pending (sync st G)")
    case Nil
    with Some show ?thesis
      by (simp add: release_def tasks_of_def parked_def split: option.splits)
  next
    case (Cons u us)
    from p Cons have "task_sync u = Some G"
      by (auto simp: pending_in_group_def dest: spec [of _ G])
    with Some Cons show ?thesis
      by (auto simp: release_def tasks_of_def parked_def task_sync_def length_of_reaction_push
          of_reaction_Cons split: option.splits)
  qed
qed

lemma running_in_release: "running_in G (release t st) = running_in G st"
  by (simp add: running_in_def release_frame)

lemma running_release_other:
  "task_sync t \<noteq> Some G \<Longrightarrow> running (sync (release t st) G) = running (sync st G)"
  by (auto simp: release_def split: option.splits list.splits)

subsection \<open>The four properties under each operation\<close>

lemma consistent_new: "consistent PowerPlant_new"
  by (simp add: consistent_def pending_in_group_def active_counts_def single_bounded_def
      sync_exclusive_def PowerPlant_new_def tasks_of_def parked_def running_in_def
      of_reaction_def TaskQueue_tasks_empty split: option.splits)

lemma consistent_cong:
  "queue st' = queue st \<Longrightarrow> executing st' = executing st \<Longrightarrow> sync st' = sync st \<Longrightarrow>
   active st' = active st \<Longrightarrow> consistent st' = consistent st"
  by (simp add: consistent_def pending_in_group_def active_counts_def single_bounded_def
      sync_exclusive_def tasks_of_cong [of st' st] running_in_cong [of st' st])

lemma consistent_submit: "consistent st \<Longrightarrow> consistent (submit inline payload R st)"
proof -
  assume c: "consistent st"
  show ?thesis
  proof (cases "enabled st R \<and> live st (owner R)
       \<and> \<not> (single (options R) \<and> 0 < active st R)
       \<and> gather_args payload R (datastore st) \<noteq> None")
    case False
    then have "submit inline payload R st = st"
      by (auto simp: submit_def split: option.splits)
    with c show ?thesis by simp
  next
    case True
    then obtain frozen where b: "gather_args payload R (datastore st) = Some frozen" by auto
    define t where "t = \<lparr>task_reaction = R, task_args = frozen, submit_seq = next_seq st\<rparr>"
    define st1 where "st1 = st\<lparr>active := (active st)(R := Suc (active st R)),
                           next_seq := Suc (next_seq st)\<rparr>"
    define st2 where "st2 = (if inline then admit t st1 else st1\<lparr>queue := TaskQueue_push t (queue st1)\<rparr>)"
    have s: "submit inline payload R st = st2"
      using True b by (auto simp add: submit_def t_def st1_def st2_def Let_def)
    have tR: "task_reaction t = R" by (simp add: t_def)
    have t1: "\<And>R'. tasks_of R' st1 = tasks_of R' st"
      by (rule tasks_of_cong) (simp_all add: st1_def)
    have r1: "\<And>G. running_in G st1 = running_in G st"
      by (rule running_in_cong) (simp add: st1_def)
    have sy1: "sync st1 = sync st" by (simp add: st1_def)
    have a2: "active st2 = (active st)(R := Suc (active st R))"
      by (simp add: st2_def st1_def admit_frame)
    have len: "\<And>R'. length (tasks_of R' st2)
        = (if R = R' then Suc (length (tasks_of R' st)) else length (tasks_of R' st))"
    proof -
      fix R'
      show "length (tasks_of R' st2)
        = (if R = R' then Suc (length (tasks_of R' st)) else length (tasks_of R' st))"
      proof (cases inline)
        case True
        then show ?thesis using length_tasks_of_admit [of R' t st1] by (simp add: st2_def tR t1)
      next
        case False
        then have "tasks_of R' st2 = of_reaction R' (TaskQueue_tasks (TaskQueue_push t (queue st)))
            @ of_reaction R' (executing st) @ of_reaction R' (parked R' st)"
          by (simp add: st2_def st1_def tasks_of_def)
        then show ?thesis
          by (simp add: length_of_reaction_push tR) (simp add: tasks_of_def)
      qed
    qed
    have p1: "pending_in_group st1"
      using c by (simp add: consistent_def pending_in_group_def sy1)
    have "pending_in_group st2"
    proof (cases inline)
      case True
      then show ?thesis using pending_in_group_admit [OF p1, of t] by (simp add: st2_def)
    next
      case False
      then show ?thesis using p1 by (simp add: st2_def pending_in_group_def)
    qed
    moreover have "active_counts st2"
      using c by (simp add: consistent_def active_counts_def a2 len)
    moreover have "single_bounded st2"
      using c True by (auto simp: consistent_def single_bounded_def a2)
    moreover have "sync_exclusive st2"
    proof -
      have e1: "sync_exclusive st1"
        using c by (simp add: consistent_def sync_exclusive_def r1 sy1)
      show ?thesis
      proof (cases inline)
        case True
        then show ?thesis using sync_exclusive_admit [OF e1, of t] by (simp add: st2_def)
      next
        case False
        then show ?thesis using e1 by (simp add: st2_def sync_exclusive_def running_in_def)
      qed
    qed
    ultimately show ?thesis by (simp add: consistent_def s)
  qed
qed


lemma consistent_foldl:
  "(\<And>s x. consistent s \<Longrightarrow> consistent (f s x)) \<Longrightarrow> consistent st \<Longrightarrow>
   consistent (foldl f st xs)"
  by (induction xs arbitrary: st) simp_all

lemma consistent_dispatch: "consistent st \<Longrightarrow> consistent (dispatch inline K payload st)"
  unfolding dispatch_def by (rule consistent_foldl) (rule consistent_submit)

lemma consistent_store_payload: "consistent (store_payload K payload st) = consistent st"
  by (rule consistent_cong) (simp_all add: store_payload_def)

lemma consistent_emit_local: "consistent st \<Longrightarrow> consistent (emit_local K payload st)"
  by (simp add: emit_local_def consistent_dispatch consistent_store_payload)

lemma consistent_emit: "consistent st \<Longrightarrow> consistent (emit scope K payload st)"
proof (cases scope)
  case LOCAL
  assume "consistent st"
  with LOCAL show ?thesis by (simp add: emit_def consistent_emit_local)
next
  case DIRECT
  assume "consistent st"
  with DIRECT show ?thesis by (simp add: emit_def consistent_dispatch consistent_store_payload)
next
  case INITIALIZE
  assume c: "consistent st"
  have "consistent (st\<lparr>init_buffer := init_buffer st @ [(K, payload)]\<rparr>) = consistent st"
    by (rule consistent_cong) simp_all
  with c INITIALIZE show ?thesis by (simp add: emit_def consistent_emit_local)
next
  case NETWORK
  assume c: "consistent st"
  have "consistent (st\<lparr>network_out := network_out st @ [(K, payload)]\<rparr>) = consistent st"
    by (rule consistent_cong) simp_all
  with c NETWORK show ?thesis by (simp add: emit_def)
qed

lemma consistent_start: "consistent st \<Longrightarrow> consistent (start st)"
proof -
  assume c: "consistent st"
  have "consistent (st\<lparr>started := True, init_buffer := []\<rparr>) = consistent st"
    by (rule consistent_cong) simp_all
  with c have "consistent (st\<lparr>started := True, init_buffer := []\<rparr>)" by simp
  then show ?thesis
    unfolding start_def
    by (rule consistent_foldl [rotated]) (auto simp: consistent_emit_local)
qed

lemma consistent_worker_pop: "consistent st \<Longrightarrow> consistent (worker_pop st)"
proof (cases "TaskQueue_pop (queue st)")
  case None
  assume "consistent st"
  with None show ?thesis by (simp add: worker_pop_def)
next
  case (Some a)
  assume c: "consistent st"
  obtain t q' where p: "TaskQueue_pop (queue st) = Some (t, q')" using Some by (cases a) auto
  define st1 where "st1 = st\<lparr>queue := q'\<rparr>"
  have len1: "\<And>R. length (tasks_of R st)
      = (if task_reaction t = R then Suc (length (tasks_of R st1)) else length (tasks_of R st1))"
    using length_of_reaction_pop [OF p] by (simp add: tasks_of_def st1_def)
  have pg1: "pending_in_group st1"
    using c by (simp add: consistent_def pending_in_group_def st1_def)
  have sb1: "single_bounded st1"
    using c by (simp add: consistent_def single_bounded_def st1_def)
  have se1: "sync_exclusive st1"
    using c by (simp add: consistent_def sync_exclusive_def st1_def running_in_def)
  have ac: "\<And>R. active st R = length (tasks_of R st)"
    using c by (simp add: consistent_def active_counts_def)
  show ?thesis
  proof (cases "enabled st (task_reaction t) \<and> live st (owner (task_reaction t))")
    case True
    then have w: "worker_pop st = admit t st1"
      using p by (simp add: worker_pop_def st1_def Let_def)
    have "active_counts (admit t st1)"
      using ac len1 by (simp add: active_counts_def admit_frame length_tasks_of_admit st1_def)
    moreover have "single_bounded (admit t st1)"
      using sb1 by (simp add: single_bounded_def admit_frame)
    ultimately show ?thesis
      using pending_in_group_admit [OF pg1, of t] sync_exclusive_admit [OF se1, of t]
      by (simp add: consistent_def w)
  next
    case False
    define st2 where
      "st2 = st1\<lparr>active := (active st1)(task_reaction t := active st1 (task_reaction t) - 1)\<rparr>"
    from False have w: "worker_pop st = st2"
      using p by (auto simp add: worker_pop_def st1_def st2_def Let_def)
    have t2: "\<And>R. tasks_of R st2 = tasks_of R st1"
      by (rule tasks_of_cong) (simp_all add: st2_def)
    have a2: "active st2 = (active st)(task_reaction t := active st (task_reaction t) - 1)"
      by (simp add: st2_def st1_def)
    have "active_counts st2"
      unfolding active_counts_def
    proof
      fix R
      show "active st2 R = length (tasks_of R st2)"
        using ac [of R] len1 [of R] by (auto simp add: a2 t2 split: if_splits)
    qed
    moreover have "single_bounded st2"
      using sb1 by (auto simp: single_bounded_def st2_def)
    moreover have "pending_in_group st2"
      using pg1 by (simp add: pending_in_group_def st2_def)
    moreover have "sync_exclusive st2"
      using se1 by (simp add: sync_exclusive_def st2_def running_in_def)
    ultimately show ?thesis by (simp add: consistent_def w)
  qed
qed


lemma filter_remove_nth_single:
  "i < length xs \<Longrightarrow> Q (xs ! i) \<Longrightarrow> length (filter Q xs) \<le> 1 \<Longrightarrow>
   filter Q (take i xs @ drop (Suc i) xs) = []"
proof -
  assume i: "i < length xs" and q: "Q (xs ! i)" and l: "length (filter Q xs) \<le> 1"
  from i have "xs = take i xs @ xs ! i # drop (Suc i) xs" by (rule id_take_nth_drop)
  then have "filter Q xs = filter Q (take i xs @ xs ! i # drop (Suc i) xs)" by simp
  with q have "length (filter Q xs) = Suc (length (filter Q (take i xs @ drop (Suc i) xs)))"
    by simp
  with l show ?thesis by simp
qed


lemma length_filter_remove_nth:
  "length (filter Q (take i xs @ drop (Suc i) xs)) \<le> length (filter Q xs)"
proof -
  have "length (filter Q (take i xs)) + length (filter Q (drop i xs)) = length (filter Q xs)"
    by (metis append_take_drop_id filter_append length_append)
  moreover have "length (filter Q (drop (Suc i) xs)) \<le> length (filter Q (drop i xs))"
  proof (cases "i < length xs")
    case True
    then have "drop i xs = xs ! i # drop (Suc i) xs" by (rule Cons_nth_drop_Suc [symmetric])
    then show ?thesis by simp
  next
    case False
    then show ?thesis by simp
  qed
  ultimately show ?thesis by simp
qed

lemma consistent_complete: "consistent st \<Longrightarrow> consistent (complete i st)"
proof (cases "i < length (executing st)")
  case False
  assume "consistent st"
  with False show ?thesis by (simp add: complete_def)
next
  case True
  assume c: "consistent st"
  define t where "t = executing st ! i"
  define st1 where "st1 = st\<lparr>executing := take i (executing st) @ drop (Suc i) (executing st),
      active := (active st)(task_reaction t := active st (task_reaction t) - 1)\<rparr>"
  have cm: "complete i st = release t st1"
    using True by (simp add: complete_def t_def st1_def Let_def)
  have ac: "\<And>R. active st R = length (tasks_of R st)"
    using c by (simp add: consistent_def active_counts_def)
  have len1: "\<And>R. length (tasks_of R st)
      = (if task_reaction t = R then Suc (length (tasks_of R st1)) else length (tasks_of R st1))"
    using length_of_reaction_remove [OF True] by (simp add: tasks_of_def st1_def t_def)
  have pg1: "pending_in_group st1"
    using c by (simp add: consistent_def pending_in_group_def st1_def)
  have a1: "active st1 = (active st)(task_reaction t := active st (task_reaction t) - 1)"
    by (simp add: st1_def)
  have "pending_in_group (release t st1)"
    using pg1 by (rule pending_in_group_release)
  moreover have "active_counts (release t st1)"
    unfolding active_counts_def
  proof
    fix R
    show "active (release t st1) R = length (tasks_of R (release t st1))"
      using ac [of R] len1 [of R]
      by (auto simp add: release_frame a1 length_tasks_of_release [OF pg1] split: if_splits)
  qed
  moreover have "single_bounded (release t st1)"
    using c by (auto simp: consistent_def single_bounded_def release_frame a1)
  moreover have "sync_exclusive (release t st1)"
    unfolding sync_exclusive_def
  proof (intro allI)
    fix G
    from c have g: "length (running_in G st) \<le> 1"
      and f: "running_in G st \<noteq> [] \<Longrightarrow> running (sync st G)"
      by (simp_all add: consistent_def sync_exclusive_def)
    have r1: "running_in G st1 = filter (\<lambda>t. task_sync t = Some G)
        (take i (executing st) @ drop (Suc i) (executing st))"
      by (simp add: running_in_def st1_def)
    have le: "length (running_in G st1) \<le> length (running_in G st)"
      using length_filter_remove_nth [of "\<lambda>t. task_sync t = Some G" i "executing st"]
      by (simp add: r1) (simp add: running_in_def)
    have sy1: "sync st1 = sync st" by (simp add: st1_def)
    show "length (running_in G (release t st1)) \<le> 1
        \<and> (running_in G (release t st1) \<noteq> [] \<longrightarrow> running (sync (release t st1) G))"
    proof (cases "task_sync t = Some G")
      case True
      have "filter (\<lambda>t. task_sync t = Some G)
          (take i (executing st) @ drop (Suc i) (executing st)) = []"
        using \<open>i < length (executing st)\<close> True g
        by (intro filter_remove_nth_single) (simp_all add: t_def running_in_def)
      then have "running_in G st1 = []" by (simp only: r1)
      then show ?thesis by (simp add: running_in_release)
    next
      case False
      have ne: "running_in G st1 \<noteq> [] \<Longrightarrow> running_in G st \<noteq> []"
        using le by auto
      from False have "running (sync (release t st1) G) = running (sync st G)"
        by (simp add: running_release_other sy1)
      with le g f ne show ?thesis by (auto simp add: running_in_release)
    qed
  qed
  ultimately show ?thesis by (simp add: consistent_def cm)
qed

lemma consistent_step: "consistent st \<Longrightarrow> consistent (step st e)"
proof (cases e)
  case (Bind R)
  assume c: "consistent st"
  have "consistent (Registry_bind R st) = consistent st"
    by (rule consistent_cong) (simp_all add: Registry_bind_def)
  with c Bind show ?thesis by simp
next
  case (Unbind R)
  assume c: "consistent st"
  have "consistent (Registry_unbind R st) = consistent st"
    by (rule consistent_cong) (simp_all add: Registry_unbind_def)
  with c Unbind show ?thesis by simp
next
  case (Enable R)
  assume c: "consistent st"
  have "consistent (handle_enable R st) = consistent st"
    by (rule consistent_cong) (simp_all add: handle_enable_def)
  with c Enable show ?thesis by simp
next
  case (Destroy r)
  assume c: "consistent st"
  have "consistent (reactor_destroyed r st) = consistent st"
    by (rule consistent_cong) (simp_all add: reactor_destroyed_def)
  with c Destroy show ?thesis by simp
next
  case (Emit scope K payload)
  assume "consistent st"
  with Emit show ?thesis by (simp add: consistent_emit)
next
  case (EveryFire K)
  assume "consistent st"
  with EveryFire show ?thesis by (simp add: every_fire_def consistent_dispatch)
next
  case Start
  assume "consistent st"
  with Start show ?thesis by (simp add: consistent_start)
next
  case WorkerPop
  assume "consistent st"
  with WorkerPop show ?thesis by (simp add: consistent_worker_pop)
next
  case (Complete i)
  assume "consistent st"
  with Complete show ?thesis by (simp add: consistent_complete)
qed

lemma consistent_run: "consistent (run evs)"
  unfolding run_def by (rule consistent_foldl) (simp_all add: consistent_step consistent_new)


subsection \<open>What a dispatch leaves alone\<close>

lemma submit_frame:
  "datastore (submit inline payload C st) = datastore st"
  "triggered_by (submit inline payload C st) = triggered_by st"
  "enabled (submit inline payload C st) = enabled st"
  "live (submit inline payload C st) = live st"
  "started (submit inline payload C st) = started st"
  "init_buffer (submit inline payload C st) = init_buffer st"
  "network_out (submit inline payload C st) = network_out st"
  by (simp_all add: submit_def Let_def admit_frame split: option.splits)

lemma foldl_frame:
  "(\<And>s x. f (g s x) = f s) \<Longrightarrow> f (foldl g st xs) = f st"
  by (induction xs arbitrary: st) simp_all

lemma dispatch_frame:
  "datastore (dispatch inline K payload st) = datastore st"
  "triggered_by (dispatch inline K payload st) = triggered_by st"
  "started (dispatch inline K payload st) = started st"
  "init_buffer (dispatch inline K payload st) = init_buffer st"
  unfolding dispatch_def
  by (rule foldl_frame, simp add: submit_frame)+

lemma tasks_of_update [simp]:
  "tasks_of R (st\<lparr>active := a\<rparr>) = tasks_of R st"
  "tasks_of R (st\<lparr>next_seq := n\<rparr>) = tasks_of R st"
  "tasks_of R (st\<lparr>datastore := d\<rparr>) = tasks_of R st"
  "tasks_of R (st\<lparr>init_buffer := b\<rparr>) = tasks_of R st"
  "tasks_of R (st\<lparr>network_out := b\<rparr>) = tasks_of R st"
  "tasks_of R (st\<lparr>triggered_by := r\<rparr>) = tasks_of R st"
  by (rule tasks_of_cong; simp)+

lemma running_in_update [simp]:
  "running_in G (st\<lparr>active := a\<rparr>) = running_in G st"
  "running_in G (st\<lparr>next_seq := n\<rparr>) = running_in G st"
  "running_in G (st\<lparr>datastore := d\<rparr>) = running_in G st"
  "running_in G (st\<lparr>init_buffer := b\<rparr>) = running_in G st"
  "running_in G (st\<lparr>network_out := b\<rparr>) = running_in G st"
  "running_in G (st\<lparr>triggered_by := r\<rparr>) = running_in G st"
  "running_in G (st\<lparr>queue := q\<rparr>) = running_in G st"
  "running_in G (st\<lparr>enabled := en\<rparr>) = running_in G st"
  "running_in G (st\<lparr>live := l\<rparr>) = running_in G st"
  "running_in G (st\<lparr>started := s\<rparr>) = running_in G st"
  by (simp_all add: running_in_def)

lemma submit_keeps:
  "C \<noteq> R \<or> (single (options R) \<and> 0 < active st R) \<Longrightarrow>
   tasks_of R (submit inline payload C st) = tasks_of R st
   \<and> active (submit inline payload C st) R = active st R"
proof (cases "C = R")
  case True
  assume "C \<noteq> R \<or> (single (options R) \<and> 0 < active st R)"
  with True show ?thesis by (simp add: submit_def)
next
  case False
  show ?thesis
  proof (cases inline)
    case True
    with False show ?thesis
      by (auto simp add: submit_def Let_def admit_frame tasks_of_admit_other split: option.splits)
  next
    case queued: False
    with False show ?thesis
      by (auto simp add: submit_def Let_def tasks_of_def of_reaction_push_other
          split: option.splits)
  qed
qed

lemma dispatch_keeps_aux:
  "(\<forall>C\<in>set Cs. C \<noteq> R) \<or> (single (options R) \<and> 0 < active st R) \<Longrightarrow>
   tasks_of R (foldl (\<lambda>s C. submit inline payload C s) st Cs) = tasks_of R st
   \<and> active (foldl (\<lambda>s C. submit inline payload C s) st Cs) R = active st R"
proof (induction Cs arbitrary: st)
  case Nil
  then show ?case by simp
next
  case (Cons C Cs)
  from Cons.prems have 1: "C \<noteq> R \<or> (single (options R) \<and> 0 < active st R)" by auto
  note k = submit_keeps [OF 1, of inline payload]
  from Cons.prems k have
    "(\<forall>C\<in>set Cs. C \<noteq> R) \<or> (single (options R) \<and> 0 < active (submit inline payload C st) R)"
    by auto
  from Cons.IH [OF this] k show ?case by simp
qed

lemma dispatch_keeps:
  "R \<notin> set (triggered_by st K) \<or> (single (options R) \<and> 0 < active st R) \<Longrightarrow>
   tasks_of R (dispatch inline K payload st) = tasks_of R st
   \<and> active (dispatch inline K payload st) R = active st R"
  unfolding dispatch_def Registry_lookup_def
  by (rule dispatch_keeps_aux) auto

lemma emit_keeps:
  "(\<forall>K. R \<notin> set (triggered_by st K)) \<or> (single (options R) \<and> 0 < active st R) \<Longrightarrow>
   tasks_of R (emit scope K payload st) = tasks_of R st
   \<and> active (emit scope K payload st) R = active st R"
proof -
  assume a: "(\<forall>K. R \<notin> set (triggered_by st K)) \<or> (single (options R) \<and> 0 < active st R)"
  define st1 where "st1 = store_payload K payload st"
  have 1: "tasks_of R st1 = tasks_of R st" "active st1 = active st"
     "triggered_by st1 = triggered_by st"
    by (simp_all add: st1_def store_payload_def)
  from a 1 have "R \<notin> set (triggered_by st1 K) \<or> (single (options R) \<and> 0 < active st1 R)"
    by auto
  from dispatch_keeps [OF this] 1 have
    d: "\<And>inline. tasks_of R (dispatch inline K (Some payload) st1) = tasks_of R st
      \<and> active (dispatch inline K (Some payload) st1) R = active st R"
    by simp
  show ?thesis
    by (cases scope) (simp_all add: emit_def emit_local_def d [unfolded st1_def])
qed


lemma admitted_in_system: "t \<in> set (tasks_of (task_reaction t) (admit t st))"
  by (auto simp: admit_def tasks_of_def parked_def of_reaction_def task_sync_def
      split: option.splits)

lemma worker_pop_keeps_task:
  "TaskQueue_pop (queue st) = Some (t, q') \<Longrightarrow>
   enabled st (task_reaction t) \<and> live st (owner (task_reaction t)) \<Longrightarrow>
   t \<in> set (tasks_of (task_reaction t) (worker_pop st))"
  by (simp add: worker_pop_def Let_def admitted_in_system)

subsection \<open>A sync group whose running flag is set\<close>










subsection \<open>The data store\<close>

lemma DataStore_get_put:
  "DataStore_get K (snd (DataStore_put K payload store))
     = (Some payload, fst (DataStore_put K payload store))"
  by (simp add: DataStore_get_def DataStore_put_def Let_def)

lemma DataStore_get_put_other:
  "K' \<noteq> K \<Longrightarrow> DataStore_get K (snd (DataStore_put K' payload store)) = DataStore_get K store"
  by (simp add: DataStore_get_def DataStore_put_def Let_def)


lemma emit_local_datastore:
  "datastore (emit_local K payload st) = snd (DataStore_put K payload (datastore st))"
  "init_buffer (emit_local K payload st) = init_buffer st"
  by (simp_all add: emit_local_def dispatch_frame store_payload_def)

lemma unwritten_start_aux:
  "DataStore_get K (datastore s) = (None, 0) \<Longrightarrow> K \<notin> fst ` set xs \<Longrightarrow> init_buffer s = [] \<Longrightarrow>
   unwritten K (foldl (\<lambda>s (K, payload). emit_local K payload s) s xs)"
proof (induction xs arbitrary: s)
  case Nil
  then show ?case by (simp add: unwritten_def)
next
  case (Cons x xs)
  obtain K' payload where x: "x = (K', payload)" by (cases x)
  with Cons.prems have "K' \<noteq> K" by auto
  with Cons.prems have "DataStore_get K (datastore (emit_local K' payload s)) = (None, 0)"
    by (simp add: emit_local_datastore DataStore_get_put_other)
  moreover from Cons.prems have "K \<notin> fst ` set xs" by auto
  moreover from Cons.prems have "init_buffer (emit_local K' payload s) = []"
    by (simp add: emit_local_datastore)
  ultimately show ?case using Cons.IH x by simp
qed

lemma unwritten_step: "unwritten K st \<Longrightarrow> \<not> emits_to K e \<Longrightarrow> unwritten K (step st e)"
proof (cases e)
  case (Emit scope K' payload)
  assume u: "unwritten K st" and "\<not> emits_to K e"
  with Emit have "K' \<noteq> K" by simp
  with u Emit show ?thesis
    by (cases scope)
      (auto simp add: unwritten_def emit_def emit_local_datastore dispatch_frame
        store_payload_def DataStore_get_put_other)
next
  case Start
  assume u: "unwritten K st"
  then have "unwritten K (start st)"
    unfolding start_def by (intro unwritten_start_aux) (simp_all add: unwritten_def)
  with Start show ?thesis by simp
next
  case WorkerPop
  assume u: "unwritten K st"
  have "datastore (worker_pop st) = datastore st" "init_buffer (worker_pop st) = init_buffer st"
    by (simp_all add: worker_pop_def Let_def admit_frame split: option.splits)
  with u WorkerPop show ?thesis by (simp add: unwritten_def)
next
  case (Complete i)
  assume u: "unwritten K st"
  have "datastore (complete i st) = datastore st" "init_buffer (complete i st) = init_buffer st"
    by (simp_all add: complete_def Let_def release_frame)
  with u Complete show ?thesis by (simp add: unwritten_def)
qed (simp_all add: unwritten_def Registry_bind_def Registry_unbind_def handle_enable_def
      reactor_destroyed_def every_fire_def dispatch_frame)

lemma unwritten_run: "\<forall>e\<in>set evs. \<not> emits_to K e \<Longrightarrow> unwritten K (run evs)"
proof -
  have "unwritten K st \<Longrightarrow> \<forall>e\<in>set evs. \<not> emits_to K e \<Longrightarrow> unwritten K (foldl step st evs)" for st
    by (induction evs arbitrary: st) (simp_all add: unwritten_step)
  moreover have "unwritten K PowerPlant_new"
    by (simp add: unwritten_def PowerPlant_new_def DataStore_get_def DataStore_empty_def)
  ultimately show "\<forall>e\<in>set evs. \<not> emits_to K e \<Longrightarrow> unwritten K (run evs)"
    by (simp add: run_def)
qed

section \<open>Single, Sync, the DataStore and the Network binding\<close>


text \<open>
  C1. For every reaction \<open>R\<close> whose options include Single, \<open>active\<close> of \<open>R\<close> is 0 or 1 at every
  reachable state (and it is the number of tasks of \<open>R\<close> in the system: queued, running,
  or parked in the pending queue of its own sync group, the only one that can hold
  them); when Single is
  set and \<open>active > 0\<close>, an emit, of any scope, key and payload, drops the new submission
  at emit time: no task of \<open>R\<close> is created or queued and \<open>active\<close> is unchanged. The drop is
  not at worker time: a task that a worker pops, its reaction enabled and its owner live,
  stays in the system, running or parked.
\<close>

theorem single_in_flight:
  "(single (options R) \<longrightarrow> active (run evs) R \<le> 1 \<and> length (tasks_of R (run evs)) \<le> 1)
   \<and> active (run evs) R = length (tasks_of R (run evs))
   \<and> list_all (\<lambda>t. task_sync t = Some G) (pending (sync (run evs) G))
   \<and> (single (options R) \<and> 0 < active (run evs) R \<longrightarrow>
        (\<forall>scope K payload.
           tasks_of R (emit scope K payload (run evs)) = tasks_of R (run evs)
           \<and> active (emit scope K payload (run evs)) R = active (run evs) R))
   \<and> (\<forall>t q'. TaskQueue_pop (queue (run evs)) = Some (t, q')
         \<and> enabled (run evs) (task_reaction t) \<and> live (run evs) (owner (task_reaction t))
       \<longrightarrow> t \<in> set (tasks_of (task_reaction t) (worker_pop (run evs))))"
proof -
  have c: "consistent (run evs)" by (rule consistent_run)
  then have a: "active (run evs) R = length (tasks_of R (run evs))"
    by (simp add: consistent_def active_counts_def)
  from c have b: "single (options R) \<Longrightarrow> active (run evs) R \<le> 1"
    by (simp add: consistent_def single_bounded_def)
  have d: "single (options R) \<and> 0 < active (run evs) R \<Longrightarrow>
      tasks_of R (emit scope K payload (run evs)) = tasks_of R (run evs)
      \<and> active (emit scope K payload (run evs)) R = active (run evs) R" for scope K payload
    by (rule emit_keeps) simp
  from c have p: "list_all (\<lambda>t. task_sync t = Some G) (pending (sync (run evs) G))"
    by (simp add: consistent_def pending_in_group_def)
  from a b d p show ?thesis
    using worker_pop_keeps_task [of "run evs"] by auto
qed

theorem single_in_flight_witness:
  "single (options (example_reaction 1 5 \<lparr>priority = NORMAL, sync_group = None, single = True\<rparr>))
   \<and> active (run [Bind (example_reaction 1 5 \<lparr>priority = NORMAL, sync_group = None, single = True\<rparr>),
                  Emit LOCAL 5 (7::nat), Emit LOCAL 5 8])
        (example_reaction 1 5 \<lparr>priority = NORMAL, sync_group = None, single = True\<rparr>) = 1
   \<and> tasks_of (example_reaction 1 5 \<lparr>priority = NORMAL, sync_group = None, single = True\<rparr>)
        (run [Bind (example_reaction 1 5 \<lparr>priority = NORMAL, sync_group = None, single = True\<rparr>),
              Emit LOCAL 5 (7::nat), Emit LOCAL 5 8])
      = [\<lparr>task_reaction = example_reaction 1 5 \<lparr>priority = NORMAL, sync_group = None, single = True\<rparr>,
          task_args = [Some 7], submit_seq = 0\<rparr>]
   \<and> tasks_of (example_reaction 1 5 \<lparr>priority = NORMAL, sync_group = None, single = True\<rparr>)
        (emit LOCAL 5 9
          (run [Bind (example_reaction 1 5 \<lparr>priority = NORMAL, sync_group = None, single = True\<rparr>),
                Emit LOCAL 5 (7::nat), Emit LOCAL 5 8]))
      = [\<lparr>task_reaction = example_reaction 1 5 \<lparr>priority = NORMAL, sync_group = None, single = True\<rparr>,
          task_args = [Some 7], submit_seq = 0\<rparr>]
   \<and> tasks_of (example_reaction 1 5 \<lparr>priority = NORMAL, sync_group = None, single = True\<rparr>)
        (worker_pop
          (run [Bind (example_reaction 1 5 \<lparr>priority = NORMAL, sync_group = None, single = True\<rparr>),
                Emit LOCAL 5 (7::nat), Emit LOCAL 5 8]))
      = [\<lparr>task_reaction = example_reaction 1 5 \<lparr>priority = NORMAL, sync_group = None, single = True\<rparr>,
          task_args = [Some 7], submit_seq = 0\<rparr>]"
  using single_in_flight
    [of "example_reaction 1 5 \<lparr>priority = NORMAL, sync_group = None, single = True\<rparr>"
        "[Bind (example_reaction 1 5 \<lparr>priority = NORMAL, sync_group = None, single = True\<rparr>),
          Emit LOCAL 5 (7::nat), Emit LOCAL 5 8]"]
  by (simp add: run_def Registry_bind_def emit_def emit_local_def store_payload_def
      DataStore_put_def DataStore_get_def DataStore_empty_def dispatch_def Registry_lookup_def
      submit_def gather_args_def Let_def PowerPlant_new_def TaskQueue_push_def TaskQueue_empty_def
      TaskQueue_pop_def TaskQueue_tasks_def levels_def task_priority_def task_sync_def
      tasks_of_def parked_def of_reaction_def worker_pop_def admit_def)




text \<open>
  C3. For every key \<open>K\<close> and payload, after a LOCAL emit of the payload for \<open>K\<close> (and nothing
  in between) \<^verbatim>\<open>DataStore.get(K)\<close> returns exactly that payload, with the sequence number
  the put returned; before any write to \<open>K\<close> (in the empty store, and after any run with no
  emit to \<open>K\<close>) \<^verbatim>\<open>get(K)\<close> returns a null payload rather than failing.
\<close>

theorem local_emit_stored:
  "DataStore_get K (datastore (emit LOCAL K payload st))
     = (Some payload, fst (DataStore_put K payload (datastore st)))
   \<and> DataStore_get K DataStore_empty = (None, 0)
   \<and> ((\<forall>e\<in>set evs. \<not> emits_to K e) \<longrightarrow> DataStore_get K (datastore (run evs)) = (None, 0))"
  using unwritten_run [of evs K]
  by (simp add: emit_def emit_local_datastore DataStore_get_put unwritten_def)
    (simp add: DataStore_get_def DataStore_empty_def)

theorem local_emit_stored_witness:
  "DataStore_get 5 (datastore (emit LOCAL 5 (7::nat) (run [Emit LOCAL 5 3, Emit LOCAL 4 1])))
     = (Some 7, 2)
   \<and> fst (DataStore_put 5 (7::nat) (datastore (run [Emit LOCAL 5 3, Emit LOCAL 4 1]))) = 2
   \<and> \<not> emits_to 6 (Emit LOCAL 5 (3::nat)) \<and> \<not> emits_to 6 (Emit LOCAL 4 (1::nat))
   \<and> DataStore_get 6 (datastore (run [Emit LOCAL 5 (3::nat), Emit LOCAL 4 1])) = (None, 0)"
  using local_emit_stored [of 5 "7::nat" "run [Emit LOCAL 5 3, Emit LOCAL 4 1]"
      "[Emit LOCAL 5 (3::nat), Emit LOCAL 4 1]"]
    local_emit_stored [of 6 "7::nat" "run [Emit LOCAL 5 3, Emit LOCAL 4 1]"
      "[Emit LOCAL 5 (3::nat), Emit LOCAL 4 1]"]
  by (simp add: run_def emit_def emit_local_def store_payload_def
      DataStore_put_def DataStore_get_def DataStore_empty_def dispatch_def Registry_lookup_def
      Let_def PowerPlant_new_def)

text \<open>
  C6. Binding \<^verbatim>\<open>on<Network<T>>\<close> constructs a NetworkListen descriptor whose hash is the
  serialisation hash of \<open>T\<close> and whose reaction is the reaction generated from the
  callback, emits that descriptor with DIRECT scope exactly once (the powerplant after
  the bind is the powerplant after that one emit), and returns a ReactionHandle that
  refers to the same reaction. The binding leaves the registry as it is, so a reaction
  that no key of the registry triggers is not triggered by an emit in any scope, of any
  key: no task of it is created.
\<close>

theorem Network_bind_listen:
  "Network_bind H generate emit_Direct reactor label callback powerplant
     = (ReactionHandle (Some (generate reactor label callback)),
        emit_Direct powerplant \<lparr>hash = H, reaction = Some (generate reactor label callback)\<rparr>)
   \<and> snd (Network_bind H generate (\<lambda>s task. emit DIRECT KL (wrap task) s) reactor label callback st)
     = emit DIRECT KL (wrap \<lparr>hash = H, reaction = Some (generate reactor label callback)\<rparr>) st
   \<and> triggered_by
       (snd (Network_bind H generate (\<lambda>s task. emit DIRECT KL (wrap task) s) reactor label callback st))
     = triggered_by st
   \<and> ((\<forall>K. generate reactor label callback \<notin> set (triggered_by st K)) \<longrightarrow>
        (\<forall>scope K payload.
           tasks_of (generate reactor label callback)
             (emit scope K payload
               (snd (Network_bind H generate (\<lambda>s task. emit DIRECT KL (wrap task) s)
                      reactor label callback st)))
           = tasks_of (generate reactor label callback)
               (snd (Network_bind H generate (\<lambda>s task. emit DIRECT KL (wrap task) s)
                      reactor label callback st))
           \<and> active
               (emit scope K payload
                 (snd (Network_bind H generate (\<lambda>s task. emit DIRECT KL (wrap task) s)
                        reactor label callback st)))
               (generate reactor label callback)
             = active
                 (snd (Network_bind H generate (\<lambda>s task. emit DIRECT KL (wrap task) s)
                        reactor label callback st))
                 (generate reactor label callback)))"
proof -
  define rx where "rx = generate reactor label callback"
  define st' where "st' = emit DIRECT KL (wrap \<lparr>hash = H, reaction = Some rx\<rparr>) st"
  have 1: "Network_bind H generate f reactor label callback pp
      = (ReactionHandle (Some rx), f pp \<lparr>hash = H, reaction = Some rx\<rparr>)" for f pp
    by (simp add: Network_bind_def NetworkListen_new_def Let_def rx_def)
  have 2: "triggered_by st' = triggered_by st"
    by (simp add: st'_def emit_def dispatch_frame store_payload_def)
  have 3: "tasks_of rx (emit scope K payload st') = tasks_of rx st'
      \<and> active (emit scope K payload st') rx = active st' rx"
    if "\<forall>K. rx \<notin> set (triggered_by st K)" for scope K payload
    by (rule emit_keeps) (use that 2 in simp)
  from 2 3 show ?thesis
    unfolding rx_def [symmetric] by (simp add: 1 st'_def)
qed


theorem Network_bind_listen_witness:
  "Network_bind 42
     (\<lambda>r l c. example_reaction 2 5 \<lparr>priority = NORMAL, sync_group = None, single = False\<rparr>)
     (\<lambda>log task. log @ [task]) () ''net'' () []
     = (ReactionHandle (Some (example_reaction 2 5 \<lparr>priority = NORMAL, sync_group = None, single = False\<rparr>)),
        [\<lparr>hash = 42,
          reaction = Some (example_reaction 2 5 \<lparr>priority = NORMAL, sync_group = None, single = False\<rparr>)\<rparr>])
   \<and> (\<forall>K. example_reaction 2 5 \<lparr>priority = NORMAL, sync_group = None, single = False\<rparr>
          \<notin> set (triggered_by
                (run [Bind (example_reaction 1 5 \<lparr>priority = HIGH, sync_group = None, single = False\<rparr>)]
                   :: (NetworkListen + nat) PowerPlant) K))
   \<and> DataStore_get 99
       (datastore (snd (Network_bind 42
          (\<lambda>r l c. example_reaction 2 5 \<lparr>priority = NORMAL, sync_group = None, single = False\<rparr>)
          (\<lambda>s task. emit DIRECT 99 (Inl task) s) () ''net'' ()
          (run [Bind (example_reaction 1 5 \<lparr>priority = HIGH, sync_group = None, single = False\<rparr>)]
             :: (NetworkListen + nat) PowerPlant))))
     = (Some (Inl \<lparr>hash = 42,
          reaction = Some (example_reaction 2 5 \<lparr>priority = NORMAL, sync_group = None, single = False\<rparr>)\<rparr>),
        1)
   \<and> tasks_of (example_reaction 2 5 \<lparr>priority = NORMAL, sync_group = None, single = False\<rparr>)
       (emit LOCAL 5 (Inr 7)
         (snd (Network_bind 42
            (\<lambda>r l c. example_reaction 2 5 \<lparr>priority = NORMAL, sync_group = None, single = False\<rparr>)
            (\<lambda>s task. emit DIRECT 99 (Inl task) s) () ''net'' ()
            (run [Bind (example_reaction 1 5 \<lparr>priority = HIGH, sync_group = None, single = False\<rparr>)]
               :: (NetworkListen + nat) PowerPlant))))
     = []
   \<and> tasks_of (example_reaction 1 5 \<lparr>priority = HIGH, sync_group = None, single = False\<rparr>)
       (emit LOCAL 5 (Inr 7)
         (snd (Network_bind 42
            (\<lambda>r l c. example_reaction 2 5 \<lparr>priority = NORMAL, sync_group = None, single = False\<rparr>)
            (\<lambda>s task. emit DIRECT 99 (Inl task) s) () ''net'' ()
            (run [Bind (example_reaction 1 5 \<lparr>priority = HIGH, sync_group = None, single = False\<rparr>)]
               :: (NetworkListen + nat) PowerPlant))))
     = [\<lparr>task_reaction = example_reaction 1 5 \<lparr>priority = HIGH, sync_group = None, single = False\<rparr>,
         task_args = [Some (Inr 7)], submit_seq = 0\<rparr>]"
  using Network_bind_listen
    [of 42 "\<lambda>r l c. example_reaction 2 5 \<lparr>priority = NORMAL, sync_group = None, single = False\<rparr>"
        "\<lambda>log task. log @ [task]" "()" "''net''" "()" "[]" 99 Inl
        "run [Bind (example_reaction 1 5 \<lparr>priority = HIGH, sync_group = None, single = False\<rparr>)]
           :: (NetworkListen + nat) PowerPlant"]
  by (simp add: Network_bind_def NetworkListen_new_def
      run_def Registry_bind_def emit_def emit_local_def store_payload_def
      DataStore_put_def DataStore_get_def DataStore_empty_def dispatch_def Registry_lookup_def
      submit_def gather_args_def Let_def PowerPlant_new_def TaskQueue_push_def TaskQueue_empty_def
      TaskQueue_tasks_def levels_def task_priority_def task_sync_def
      tasks_of_def parked_def of_reaction_def admit_def)

end
